theory Spec2Isabelle
  imports Main
begin

text \<open>
  A shallow embedding of the two request handlers of \<^verbatim>\<open>matrix-websockets-proxy\<close>
  (\<^verbatim>\<open>serveStream\<close> for \<^verbatim>\<open>/stream\<close> and \<^verbatim>\<open>serveEventSource\<close> for \<^verbatim>\<open>/events\<close>), of
  their helpers \<^verbatim>\<open>httpError\<close>, \<^verbatim>\<open>handleHttpError\<close> and \<^verbatim>\<open>PopNextBatch\<close>, and of the
  parts of \<^verbatim>\<open>net/http\<close>, \<^verbatim>\<open>gorilla/websocket\<close> and \<^verbatim>\<open>encoding/json\<close> they call. The
  definitions come first, then the facts about them, then the claims of the specification.
\<close>

section \<open>Data model\<close>

type_synonym bytes = string

text \<open>
  An incoming \<^verbatim>\<open>*http.Request\<close>, restricted to what the two handlers read: the method,
  the header fields and the parsed query string. Both \<^verbatim>\<open>Header.Get\<close> and
  \<^verbatim>\<open>URL.Query().Get\<close> return the first value stored under a key, or the empty string
  when there is none. Header names are looked up as the source spells them.
\<close>

record Request =
  Method :: string
  Header :: "string \<Rightarrow> string list"
  Query :: "string \<Rightarrow> string list"

definition Get :: "(string \<Rightarrow> string list) \<Rightarrow> string \<Rightarrow> string" where
  "Get m key = (case m key of [] \<Rightarrow> [] | v # _ \<Rightarrow> v)"

text \<open>
  The fields of \<^verbatim>\<open>proxy.Client\<close> that the handlers set: the two arguments of
  \<^verbatim>\<open>proxy.NewClient\<close> and the three fields assigned afterwards. The type is declared in
  the \<^verbatim>\<open>proxy\<close> package; the record lists the fields as the handlers use them.
\<close>

record Client =
  Url :: string
  AccessToken :: string
  NextSyncBatch :: string
  Filter :: string
  Presence :: string

definition NewClient :: "string \<Rightarrow> string \<Rightarrow> Client" where
  "NewClient url accessToken =
     \<lparr>Url = url, AccessToken = accessToken, NextSyncBatch = [], Filter = [], Presence = []\<rparr>"

text \<open>
  \<^verbatim>\<open>proxy.HttpError\<close> with the three fields \<^verbatim>\<open>handleHttpError\<close> reads, and the error
  values \<^verbatim>\<open>client.Sync\<close> can return, as the type switch of the handlers tells them
  apart: a \<^verbatim>\<open>*proxy.MatrixError\<close> (embedding an \<^verbatim>\<open>HttpError\<close>, with the upstream's
  error code and message), a \<^verbatim>\<open>*proxy.HttpError\<close>, or any other error.
\<close>

record HttpError =
  StatusCode :: int
  ContentType :: string
  Body :: bytes

datatype error =
    MatrixError HttpError string string
  | HttpErrorPtr HttpError
  | OtherError string

text \<open>The command line flags \<^verbatim>\<open>-compress\<close> and \<^verbatim>\<open>-upstream\<close>.\<close>

record Flags =
  compress :: bool
  upstreamURL :: string

section \<open>Observable actions and the response writer\<close>

text \<open>
  Everything a handler does to the outside is logged in order: the calls into the
  \<^verbatim>\<open>proxy\<close> package that reach the upstream server, the calls on the
  \<^verbatim>\<open>http.ResponseWriter\<close>, the websocket upgrade and what follows it, and each read of
  the \<^verbatim>\<open>connectionExists\<close> flag.
\<close>

datatype event =
    SyncCall Client bool
  | UpdatePresenceCall Client string
  | HeaderSet string string
  | WriteHeaderCall int
  | WriteCall bytes
  | FlushCall
  | UpgradeCall "string list" bool
  | EnableWriteCompression bool
  | NewConnection Client
  | SendMessage bytes
  | Start
  | ReadConnectionExists bool

text \<open>
  The run-time panics the handlers can raise: a slice expression out of bounds, a failed
  type assertion, and the panic of \<^verbatim>\<open>net/http\<close> on a status code that is not a
  three-digit number. How a handler ends: it returns, it panics, or it waits for an answer
  of the upstream that never comes.
\<close>

datatype panic =
    SliceBoundsOutOfRange nat nat
  | InterfaceConversion string
  | InvalidWriteHeaderCode int

datatype outcome = Returned | Panicked panic | Blocked

text \<open>
  The state of the \<^verbatim>\<open>http.ResponseWriter\<close> follows \<^verbatim>\<open>net/http\<close>. The header map can be
  changed at any time. The status is fixed by the first \<^verbatim>\<open>WriteHeader\<close>, or as 200 by the
  first \<^verbatim>\<open>Write\<close> or \<^verbatim>\<open>Flush\<close> when \<^verbatim>\<open>WriteHeader\<close> was not called, and the header map is
  copied at that moment (\<open>sentHeader\<close>: the server writes the header lines from this copy and
  adds its own); a later \<^verbatim>\<open>WriteHeader\<close> is ignored, and a later change of the header map
  is not sent. \<^verbatim>\<open>WriteHeader\<close> panics on a code below 100 or above 999. \<^verbatim>\<open>Write\<close> accepts
  no body for a status 1xx, 204 or 304 (\<open>sentBody\<close>: the bytes accepted).
\<close>

record World =
  trace :: "event list"
  headerMap :: "string \<Rightarrow> string option"
  wroteHeader :: bool
  sentStatus :: int
  sentHeader :: "string \<Rightarrow> string option"
  sentBody :: bytes

definition world0 :: World where
  "world0 = \<lparr>trace = [], headerMap = (\<lambda>_. None), wroteHeader = False, sentStatus = 0,
     sentHeader = (\<lambda>_. None), sentBody = []\<rparr>"

definition logEvent :: "event \<Rightarrow> World \<Rightarrow> World" where
  "logEvent e w = w\<lparr>trace := trace w @ [e]\<rparr>"

definition sendHeader :: "int \<Rightarrow> World \<Rightarrow> World" where
  "sendHeader code w =
     (if wroteHeader w then w
      else w\<lparr>wroteHeader := True, sentStatus := code, sentHeader := headerMap w\<rparr>)"

definition bodyAllowedForStatus :: "int \<Rightarrow> bool" where
  "bodyAllowedForStatus status \<longleftrightarrow> \<not> (100 \<le> status \<and> status \<le> 199) \<and> status \<noteq> 204 \<and> status \<noteq> 304"

definition Header_Set :: "string \<Rightarrow> string \<Rightarrow> World \<Rightarrow> World" where
  "Header_Set k v w = logEvent (HeaderSet k v) (w\<lparr>headerMap := (headerMap w)(k := Some v)\<rparr>)"

definition WriteHeader :: "int \<Rightarrow> World \<Rightarrow> panic option \<times> World" where
  "WriteHeader code w =
     (let w1 = logEvent (WriteHeaderCall code) w in
      if wroteHeader w then (None, w1)
      else if code < 100 \<or> 999 < code then (Some (InvalidWriteHeaderCode code), w1)
      else (None, sendHeader code w1))"

definition Write :: "bytes \<Rightarrow> World \<Rightarrow> World" where
  "Write b w =
     (let w1 = sendHeader 200 w in
      logEvent (WriteCall b)
        (if bodyAllowedForStatus (sentStatus w1) then w1\<lparr>sentBody := sentBody w1 @ b\<rparr> else w1))"

definition Flush :: "World \<Rightarrow> World" where
  "Flush w = logEvent FlushCall (sendHeader 200 w)"

text \<open>
  A handler that has made its last call on the response writer returns, unless that call
  panicked.
\<close>

definition ended :: "panic option \<times> World \<Rightarrow> outcome \<times> World" where
  "ended r = (case r of (None, w) \<Rightarrow> (Returned, w) | (Some p, w) \<Rightarrow> (Panicked p, w))"

text \<open>\<^verbatim>\<open>http.StatusText\<close> for the codes that are passed to it.\<close>

definition StatusMethodNotAllowed :: int where
  "StatusMethodNotAllowed = 405"

definition StatusInternalServerError :: int where
  "StatusInternalServerError = 500"

definition StatusText :: "int \<Rightarrow> string" where
  "StatusText code =
     (if code = 400 then ''Bad Request''
      else if code = 403 then ''Forbidden''
      else if code = 405 then ''Method Not Allowed''
      else if code = 500 then ''Internal Server Error''
      else [])"

text \<open>
  \<^verbatim>\<open>http.Error\<close>: sets the content type to plain text, forbids content sniffing, sends the
  status and writes the message followed by a newline.
\<close>

definition http_Error :: "string \<Rightarrow> int \<Rightarrow> World \<Rightarrow> panic option \<times> World" where
  "http_Error msg code w =
     (case WriteHeader code
             (Header_Set ''X-Content-Type-Options'' ''nosniff''
               (Header_Set ''Content-Type'' ''text/plain; charset=utf-8'' w)) of
        (Some p, w1) \<Rightarrow> (Some p, w1)
      | (None, w1) \<Rightarrow> (None, Write (msg @ ''\<newline>'') w1))"

definition httpError :: "int \<Rightarrow> World \<Rightarrow> panic option \<times> World" where
  "httpError status w = http_Error (StatusText status) status w"

definition handleHttpError :: "HttpError \<Rightarrow> World \<Rightarrow> panic option \<times> World" where
  "handleHttpError errp w =
     (case WriteHeader (StatusCode errp) (Header_Set ''Content-Type'' (ContentType errp) w) of
        (Some p, w1) \<Rightarrow> (Some p, w1)
      | (None, w1) \<Rightarrow> (None, Write (Body errp) w1))"

text \<open>
  The type switch on the error of a failed sync, the same in both handlers.
\<close>

definition writeSyncError :: "error \<Rightarrow> World \<Rightarrow> panic option \<times> World" where
  "writeSyncError err w =
     (case err of
        MatrixError he code msg \<Rightarrow> handleHttpError he w
      | HttpErrorPtr he \<Rightarrow> handleHttpError he w
      | OtherError msg \<Rightarrow> httpError StatusInternalServerError w)"

section \<open>Credential resolution\<close>

text \<open>
  A Go slice expression \<^verbatim>\<open>s[lo:hi]\<close> on a string panics unless \<open>lo \<le> hi \<le> len(s)\<close>.
\<close>

definition slice :: "string \<Rightarrow> nat \<Rightarrow> nat \<Rightarrow> panic + string" where
  "slice s lo hi =
     (if hi \<le> length s \<and> lo \<le> hi then Inr (take (hi - lo) (drop lo s))
      else Inl (SliceBoundsOutOfRange hi (length s)))"

text \<open>
  Lines 79--86 of the handler of \<^verbatim>\<open>/events\<close>, repeated as lines 150--157 (62--69 of
  \<^verbatim>\<open>main.go\<close>) in the handler of \<^verbatim>\<open>/stream\<close>:
  \<^verbatim>\<open>
  accessToken := req.Header.Get("Authorization")
  if accessToken != "" {
      if accessToken[0:6] == "Bearer " {
          accessToken = accessToken[7:len(accessToken)]
      }
  } else {
      accessToken = req.URL.Query().Get("access_token")
  }
  \<close>
\<close>

definition resolveAccessToken :: "Request \<Rightarrow> panic + string" where
  "resolveAccessToken req =
     (let accessToken = Get (Header req) ''Authorization'' in
      if accessToken \<noteq> [] then
        (case slice accessToken 0 6 of
           Inl p \<Rightarrow> Inl p
         | Inr pre \<Rightarrow>
             if pre = ''Bearer '' then slice accessToken 7 (length accessToken)
             else Inr accessToken)
      else Inr (Get (Query req) ''access_token''))"

section \<open>The JSON codec used by \<^verbatim>\<open>PopNextBatch\<close>\<close>

text \<open>
  \<^verbatim>\<open>PopNextBatch\<close> calls \<^verbatim>\<open>json.Unmarshal\<close> and \<^verbatim>\<open>json.Marshal\<close> of Go's
  \<^verbatim>\<open>encoding/json\<close>, here as of Go 1.16, the version the repository builds with, on a
  platform where \<^verbatim>\<open>int\<close> has 64 bits. The model scans the bytes into a document, decodes
  the members that the struct names into Go values, and prints the struct again.
  A \<^verbatim>\<open>float64\<close> is not computed with: the type \<open>'f\<close> stands for it, and the model takes
  \<^verbatim>\<open>strconv.ParseFloat\<close> and the printing of a \<^verbatim>\<open>float64\<close> by \<^verbatim>\<open>json.Marshal\<close> as the
  parameters \<open>parseFloat\<close> (\<open>None\<close> when the literal is out of range) and \<open>formatFloat\<close>.
\<close>

datatype json =
    JNull
  | JBool bool
  | JNumber string
  | JString string
  | JArray "json list"
  | JObject "(string \<times> json) list"

definition isSpace :: "char \<Rightarrow> bool" where
  "isSpace c \<longleftrightarrow> c = CHR '' '' \<or> c = CHR 0x09 \<or> c = CHR 0x0A \<or> c = CHR 0x0D"

definition skipSpace :: "string \<Rightarrow> string" where
  "skipSpace s = dropWhile isSpace s"

definition isDigit :: "char \<Rightarrow> bool" where
  "isDigit c \<longleftrightarrow> (48::nat) \<le> of_char c \<and> of_char c \<le> (57::nat)"

definition hexVal :: "char \<Rightarrow> nat option" where
  "hexVal c =
     (let n = (of_char c :: nat) in
      if 48 \<le> n \<and> n \<le> 57 then Some (n - 48)
      else if 97 \<le> n \<and> n \<le> 102 then Some (n - 87)
      else if 65 \<le> n \<and> n \<le> 70 then Some (n - 55)
      else None)"

fun hex4 :: "string \<Rightarrow> (nat \<times> string) option" where
  "hex4 (a # b # c # d # rest) =
     (case (hexVal a, hexVal b, hexVal c, hexVal d) of
        (Some x, Some y, Some z, Some t) \<Rightarrow> Some (((x * 16 + y) * 16 + z) * 16 + t, rest)
      | _ \<Rightarrow> None)"
| "hex4 _ = None"

text \<open>\<^verbatim>\<open>utf8.EncodeRune\<close>, for the runes an escape can denote.\<close>

definition utf8 :: "nat \<Rightarrow> string" where
  "utf8 n =
     (if n < 0x80 then [char_of n]
      else if n < 0x800 then [char_of (0xC0 + n div 64), char_of (0x80 + n mod 64)]
      else if n < 0x10000 then
        [char_of (0xE0 + n div 4096), char_of (0x80 + (n div 64) mod 64), char_of (0x80 + n mod 64)]
      else
        [char_of (0xF0 + n div 262144), char_of (0x80 + (n div 4096) mod 64),
         char_of (0x80 + (n div 64) mod 64), char_of (0x80 + n mod 64)])"

text \<open>
  \<^verbatim>\<open>utf8.DecodeRune\<close>, as far as the codec needs it: the number of bytes of the
  well-formed UTF-8 sequence a string begins with, or 0 when it begins with none
  (Go then reports \<^verbatim>\<open>RuneError\<close> with size 1).
\<close>

definition isCont :: "char \<Rightarrow> bool" where
  "isCont c \<longleftrightarrow> (0x80::nat) \<le> of_char c \<and> of_char c \<le> (0xBF::nat)"

definition between :: "nat \<Rightarrow> char \<Rightarrow> nat \<Rightarrow> bool" where
  "between lo c hi \<longleftrightarrow> lo \<le> of_char c \<and> of_char c \<le> hi"

fun runeLen :: "string \<Rightarrow> nat" where
  "runeLen [] = 0"
| "runeLen (b # rest) =
     (if (of_char b :: nat) < 0x80 then 1
      else if between 0xC2 b 0xDF then
        (case rest of b1 # _ \<Rightarrow> if isCont b1 then 2 else 0 | _ \<Rightarrow> 0)
      else if between 0xE0 b 0xEF then
        (case rest of
           b1 # b2 # _ \<Rightarrow>
             if between (if b = CHR 0xE0 then 0xA0 else 0x80) b1 (if b = CHR 0xED then 0x9F else 0xBF)
                \<and> isCont b2
             then 3 else 0
         | _ \<Rightarrow> 0)
      else if between 0xF0 b 0xF4 then
        (case rest of
           b1 # b2 # b3 # _ \<Rightarrow>
             if between (if b = CHR 0xF0 then 0x90 else 0x80) b1 (if b = CHR 0xF4 then 0x8F else 0xBF)
                \<and> isCont b2 \<and> isCont b3
             then 4 else 0
         | _ \<Rightarrow> 0)
      else 0)"

text \<open>
  An escape \<^verbatim>\<open>\uXXXX\<close>: a high surrogate followed by the escape of a low surrogate is
  one rune; any other surrogate is U+FFFD, and what follows it is read again.
\<close>

definition surrogate :: "nat \<Rightarrow> string \<Rightarrow> nat \<times> string" where
  "surrogate u r =
     (if 0xD800 \<le> u \<and> u < 0xE000 then
        (if u < 0xDC00 \<and> take 2 r = [CHR 0x5C, CHR ''u''] then
           (case hex4 (drop 2 r) of
              Some (v, r2) \<Rightarrow>
                if 0xDC00 \<le> v \<and> v < 0xE000
                then (0x10000 + (u - 0xD800) * 1024 + (v - 0xDC00), r2)
                else (0xFFFD, r)
            | None \<Rightarrow> (0xFFFD, r))
         else (0xFFFD, r))
      else (u, r))"

definition unescape :: "char \<Rightarrow> char option" where
  "unescape e =
     (if e = CHR 0x22 \<or> e = CHR 0x5C \<or> e = CHR ''/'' then Some e
      else if e = CHR ''b'' then Some (CHR 0x08)
      else if e = CHR ''f'' then Some (CHR 0x0C)
      else if e = CHR ''n'' then Some (CHR 0x0A)
      else if e = CHR ''r'' then Some (CHR 0x0D)
      else if e = CHR ''t'' then Some (CHR 0x09)
      else None)"

definition prepend :: "'a list \<Rightarrow> ('a list \<times> 'b) option \<Rightarrow> ('a list \<times> 'b) option" where
  "prepend p r = map_option (\<lambda>(s, rest). (p @ s, rest)) r"

text \<open>
  A string literal after its opening quote, up to the closing quote: the text it denotes
  and the rest of the input. A control character is an error; a byte that begins no
  well-formed UTF-8 sequence becomes U+FFFD. The first argument bounds the number of
  steps; one more than the length of the input is never reached.
\<close>

fun scanString :: "nat \<Rightarrow> string \<Rightarrow> (string \<times> string) option" where
  "scanString 0 s = None"
| "scanString (Suc n) [] = None"
| "scanString (Suc n) (c # cs) =
     (if c = CHR 0x22 then Some ([], cs)
      else if c = CHR 0x5C then
        (case cs of
           [] \<Rightarrow> None
         | e # r \<Rightarrow>
             if e = CHR ''u'' then
               (case hex4 r of
                  None \<Rightarrow> None
                | Some (u, r1) \<Rightarrow>
                    (case surrogate u r1 of (rune, r2) \<Rightarrow> prepend (utf8 rune) (scanString n r2)))
             else
               (case unescape e of
                  None \<Rightarrow> None
                | Some ch \<Rightarrow> prepend [ch] (scanString n r)))
      else if (of_char c :: nat) < 0x20 then None
      else if runeLen (c # cs) = 0 then prepend (utf8 0xFFFD) (scanString n cs)
      else prepend (take (runeLen (c # cs)) (c # cs)) (scanString n (drop (runeLen (c # cs)) (c # cs))))"

definition digits :: "string \<Rightarrow> (string \<times> string) option" where
  "digits s = (let ds = takeWhile isDigit s in if ds = [] then None else Some (ds, dropWhile isDigit s))"

text \<open>
  A number literal: an optional minus sign, an integer part without a leading zero, an
  optional fraction and an optional exponent.
\<close>

definition scanNumber :: "string \<Rightarrow> (string \<times> string) option" where
  "scanNumber s =
     (let (sign, s1) = (if take 1 s = ''-'' then (''-'', drop 1 s) else ([], s)) in
      case digits s1 of
        None \<Rightarrow> None
      | Some (ds, s2) \<Rightarrow>
          (let (ip, s2) = (if hd ds = CHR ''0'' then (''0'', drop 1 s1) else (ds, s2)) in
           case (if take 1 s2 = ''.'' then map_option (\<lambda>(fd, r). (''.'' @ fd, r)) (digits (drop 1 s2))
                 else Some ([], s2)) of
             None \<Rightarrow> None
           | Some (frac, s3) \<Rightarrow>
               (if take 1 s3 = ''e'' \<or> take 1 s3 = ''E'' then
                  (let (esign, s4) =
                        (if take 1 (drop 1 s3) = ''+'' \<or> take 1 (drop 1 s3) = ''-''
                         then (take 2 s3, drop 2 s3) else (take 1 s3, drop 1 s3)) in
                   map_option (\<lambda>(ed, r). (sign @ ip @ frac @ esign @ ed, r)) (digits s4))
                else Some (sign @ ip @ frac, s3))))"

text \<open>
  The scanner refuses a document with more than 10000 arrays and objects open at once.
\<close>

definition maxNestingDepth :: nat where
  "maxNestingDepth = 10000"

text \<open>
  The parser: the first argument bounds the depth of the recursion, the second counts the
  arrays and objects that are open. \<open>decode\<close> passes one more than twice the length of
  the input as the bound, which is never reached (\<open>parseValue_fuel\<close> below).
\<close>

fun parseValue :: "nat \<Rightarrow> nat \<Rightarrow> string \<Rightarrow> (json \<times> string) option"
  and parseElements :: "nat \<Rightarrow> nat \<Rightarrow> string \<Rightarrow> (json list \<times> string) option"
  and parseMembers :: "nat \<Rightarrow> nat \<Rightarrow> string \<Rightarrow> ((string \<times> json) list \<times> string) option"
where
  "parseValue 0 depth s = None"
| "parseValue (Suc n) depth s =
     (case skipSpace s of
        [] \<Rightarrow> None
      | c # r \<Rightarrow>
          if c = CHR ''{'' then
            (if maxNestingDepth \<le> depth then None
             else if take 1 (skipSpace r) = ''}'' then Some (JObject [], drop 1 (skipSpace r))
             else map_option (\<lambda>(ms, rest). (JObject ms, rest)) (parseMembers n (Suc depth) r))
          else if c = CHR ''['' then
            (if maxNestingDepth \<le> depth then None
             else if take 1 (skipSpace r) = '']'' then Some (JArray [], drop 1 (skipSpace r))
             else map_option (\<lambda>(vs, rest). (JArray vs, rest)) (parseElements n (Suc depth) r))
          else if c = CHR 0x22 then
            map_option (\<lambda>(str, rest). (JString str, rest)) (scanString (Suc (length r)) r)
          else if take 4 (c # r) = ''null'' then Some (JNull, drop 3 r)
          else if take 4 (c # r) = ''true'' then Some (JBool True, drop 3 r)
          else if take 5 (c # r) = ''false'' then Some (JBool False, drop 4 r)
          else map_option (\<lambda>(lit, rest). (JNumber lit, rest)) (scanNumber (c # r)))"
| "parseElements 0 depth s = None"
| "parseElements (Suc n) depth s =
     (case parseValue n depth s of
        None \<Rightarrow> None
      | Some (v, r) \<Rightarrow>
          (case skipSpace r of
             [] \<Rightarrow> None
           | c # r1 \<Rightarrow>
               if c = CHR '','' then map_option (\<lambda>(vs, rest). (v # vs, rest)) (parseElements n depth r1)
               else if c = CHR '']'' then Some ([v], r1)
               else None))"
| "parseMembers 0 depth s = None"
| "parseMembers (Suc n) depth s =
     (case skipSpace s of
        [] \<Rightarrow> None
      | q # r \<Rightarrow>
          if q \<noteq> CHR 0x22 then None
          else
            (case scanString (Suc (length r)) r of
               None \<Rightarrow> None
             | Some (key, r1) \<Rightarrow>
                 (case skipSpace r1 of
                    [] \<Rightarrow> None
                  | c # r2 \<Rightarrow>
                      if c \<noteq> CHR '':'' then None
                      else
                        (case parseValue n depth r2 of
                           None \<Rightarrow> None
                         | Some (v, r3) \<Rightarrow>
                             (case skipSpace r3 of
                                [] \<Rightarrow> None
                              | d # r4 \<Rightarrow>
                                  if d = CHR '','' then
                                    map_option (\<lambda>(ms, rest). ((key, v) # ms, rest)) (parseMembers n depth r4)
                                  else if d = CHR ''}'' then Some ([(key, v)], r4)
                                  else None)))))"

definition decode :: "string \<Rightarrow> json option" where
  "decode s =
     (case parseValue (Suc (2 * length s)) 0 s of
        None \<Rightarrow> None
      | Some (v, rest) \<Rightarrow> if skipSpace rest = [] then Some v else None)"

text \<open>
  The Go values that \<^verbatim>\<open>json.Unmarshal\<close> stores in an \<^verbatim>\<open>interface{}\<close>: \<^verbatim>\<open>nil\<close>, a
  \<^verbatim>\<open>bool\<close>, a \<^verbatim>\<open>float64\<close>, a \<^verbatim>\<open>string\<close>, a \<^verbatim>\<open>[]interface{}\<close> or a
  \<^verbatim>\<open>map[string]interface{}\<close>. A map is kept as the list of its entries in the byte order
  of the keys, which is the order \<^verbatim>\<open>json.Marshal\<close> prints them in.
\<close>

datatype 'f gv =
    GNil
  | GBool bool
  | GFloat64 'f
  | GString string
  | GSlice "'f gv list"
  | GMap "(string \<times> 'f gv) list"

fun strLess :: "string \<Rightarrow> string \<Rightarrow> bool" where
  "strLess [] [] = False"
| "strLess [] (b # bs) = True"
| "strLess (a # as) [] = False"
| "strLess (a # as) (b # bs) = ((of_char a :: nat) < of_char b \<or> (a = b \<and> strLess as bs))"

text \<open>The assignment \<^verbatim>\<open>m[k] = v\<close>.\<close>

fun mapStore :: "string \<Rightarrow> 'a \<Rightarrow> (string \<times> 'a) list \<Rightarrow> (string \<times> 'a) list" where
  "mapStore k v [] = [(k, v)]"
| "mapStore k v ((k', v') # m) =
     (if k = k' then (k, v) # m
      else if strLess k k' then (k, v) # (k', v') # m
      else (k', v') # mapStore k v m)"

definition goMap :: "(string \<times> 'a) list \<Rightarrow> (string \<times> 'a) list" where
  "goMap ms = foldl (\<lambda>m kv. mapStore (fst kv) (snd kv) m) [] ms"

text \<open>
  Decoding a value into an empty \<^verbatim>\<open>interface{}\<close>. A number is converted by
  \<^verbatim>\<open>strconv.ParseFloat\<close>; when that fails the decoder records an
  \<^verbatim>\<open>UnmarshalTypeError\<close>, here the result \<open>None\<close>.
\<close>

fun valueInterface :: "(string \<Rightarrow> 'f option) \<Rightarrow> json \<Rightarrow> 'f gv option" where
  "valueInterface parseFloat JNull = Some GNil"
| "valueInterface parseFloat (JBool b) = Some (GBool b)"
| "valueInterface parseFloat (JNumber lit) = map_option GFloat64 (parseFloat lit)"
| "valueInterface parseFloat (JString s) = Some (GString s)"
| "valueInterface parseFloat (JArray vs) =
     map_option GSlice (those (map (valueInterface parseFloat) vs))"
| "valueInterface parseFloat (JObject ms) =
     map_option (\<lambda>es. GMap (goMap es))
       (those (map (\<lambda>kv. map_option (Pair (fst kv)) (valueInterface parseFloat (snd kv))) ms))"

datatype jsonError = SyntaxError | UnmarshalTypeError

text \<open>
  The struct \<^verbatim>\<open>SyncResponse\<close> local to \<^verbatim>\<open>PopNextBatch\<close>. The struct tags are written
  \<^verbatim>\<open>`json:"account_data",omit`\<close>: the part after the closing quote is not an option of
  the \<^verbatim>\<open>json\<close> key, so every field is named by its tag and none is ever omitted. The
  field \<^verbatim>\<open>Presence\<close> is written \<open>Presence'\<close> here, since the client has a field of the same
  name.
\<close>

record 'f SyncResponse =
  AccountData :: "'f gv"
  ToDevice :: "'f gv"
  DeviceLists :: "'f gv"
  Presence' :: "'f gv"
  Rooms :: "'f gv"
  Groups :: "'f gv"
  DeviceOTKCount :: int
  NextBatch :: string

definition zeroSyncResponse :: "'f SyncResponse" where
  "zeroSyncResponse =
     \<lparr>AccountData = GNil, ToDevice = GNil, DeviceLists = GNil, Presence' = GNil,
      Rooms = GNil, Groups = GNil, DeviceOTKCount = 0, NextBatch = []\<rparr>"

definition fieldNames :: "string list" where
  "fieldNames = [''account_data'', ''to_device'', ''device_lists'', ''presence'', ''rooms'',
     ''groups'', ''device_one_time_keys_count'', ''next_batch'']"

text \<open>
  Matching a member name to a field name when no field has exactly that name
  (\<^verbatim>\<open>fold.go\<close>): \<^verbatim>\<open>foldFunc\<close> picks the comparison by the field name. A name with
  \<^verbatim>\<open>k\<close> or \<^verbatim>\<open>s\<close> is compared by \<^verbatim>\<open>equalFoldRight\<close>, which also accepts the Kelvin sign
  U+212A for \<^verbatim>\<open>k\<close> and the long s U+017F for \<^verbatim>\<open>s\<close>; another name by
  \<^verbatim>\<open>asciiEqualFold\<close>, or by \<^verbatim>\<open>simpleLetterEqualFold\<close> when it has letters only. The
  field names of the struct are ASCII, so the case of \<^verbatim>\<open>bytes.EqualFold\<close> does not arise.
\<close>

definition caseMask :: "char \<Rightarrow> nat" where
  "caseMask c = (let n = (of_char c :: nat) in if (n div 32) mod 2 = 1 then n - 32 else n)"

definition isUpper :: "nat \<Rightarrow> bool" where
  "isUpper u \<longleftrightarrow> 65 \<le> u \<and> u \<le> 90"

fun equalFoldRight :: "string \<Rightarrow> string \<Rightarrow> bool" where
  "equalFoldRight [] t = (t = [])"
| "equalFoldRight (sb # s) [] = False"
| "equalFoldRight (sb # s) (tb # t) =
     (if (of_char tb :: nat) < 0x80 then
        (if sb \<noteq> tb then isUpper (caseMask sb) \<and> caseMask sb = caseMask tb \<and> equalFoldRight s t
         else equalFoldRight s t)
      else if sb = CHR ''s'' \<or> sb = CHR ''S'' then
        take 2 (tb # t) = [CHR 0xC5, CHR 0xBF] \<and> equalFoldRight s (drop 1 t)
      else if sb = CHR ''k'' \<or> sb = CHR ''K'' then
        take 3 (tb # t) = [CHR 0xE2, CHR 0x84, CHR 0xAA] \<and> equalFoldRight s (drop 2 t)
      else False)"

definition asciiEqualFold :: "string \<Rightarrow> string \<Rightarrow> bool" where
  "asciiEqualFold s t \<longleftrightarrow>
     list_all2 (\<lambda>sb tb. sb = tb \<or> (isUpper (caseMask sb) \<and> (of_char sb :: nat) < 0x80
        \<and> caseMask sb = caseMask tb)) s t"

definition simpleLetterEqualFold :: "string \<Rightarrow> string \<Rightarrow> bool" where
  "simpleLetterEqualFold s t \<longleftrightarrow> list_all2 (\<lambda>sb tb. caseMask sb = caseMask tb) s t"

definition foldFunc :: "string \<Rightarrow> string \<Rightarrow> string \<Rightarrow> bool" where
  "foldFunc name =
     (if list_ex (\<lambda>b. caseMask b = 75 \<or> caseMask b = 83) name then equalFoldRight
      else if list_ex (\<lambda>b. \<not> isUpper (caseMask b)) name then asciiEqualFold
      else simpleLetterEqualFold)"

definition findField :: "string \<Rightarrow> string option" where
  "findField key =
     (if key \<in> set fieldNames then Some key
      else find (\<lambda>name. foldFunc name name key) fieldNames)"

definition digitVal :: "char \<Rightarrow> int" where
  "digitVal c = int (of_char c) - 48"

text \<open>\<^verbatim>\<open>strconv.ParseInt(s, 10, 64)\<close> on a number literal.\<close>

definition parseInt :: "string \<Rightarrow> int option" where
  "parseInt lit =
     (let ds = (if take 1 lit = ''-'' then drop 1 lit else lit);
          n = foldl (\<lambda>a c. 10 * a + digitVal c) 0 ds;
          v = (if take 1 lit = ''-'' then - n else n)
      in if ds \<noteq> [] \<and> list_all isDigit ds \<and> - (2 ^ 63) \<le> v \<and> v < 2 ^ 63 then Some v else None)"

text \<open>
  Storing a member into its field: an \<^verbatim>\<open>interface{}\<close> field takes any value; the
  \<^verbatim>\<open>int\<close> field takes an integer literal in the range of 64 bits, the \<^verbatim>\<open>string\<close>
  field a string; \<^verbatim>\<open>null\<close> leaves both unchanged, and any other value is an
  \<^verbatim>\<open>UnmarshalTypeError\<close>. Decoding goes on after such an error and reports the first.
\<close>

definition setValue ::
  "(string \<Rightarrow> 'f option) \<Rightarrow> json \<Rightarrow> ('f gv \<Rightarrow> 'f SyncResponse) \<Rightarrow> jsonError + 'f SyncResponse" where
  "setValue parseFloat v store =
     (case valueInterface parseFloat v of
        None \<Rightarrow> Inl UnmarshalTypeError
      | Some g \<Rightarrow> Inr (store g))"

definition setField ::
  "(string \<Rightarrow> 'f option) \<Rightarrow> string \<Rightarrow> json \<Rightarrow> 'f SyncResponse \<Rightarrow> jsonError + 'f SyncResponse" where
  "setField parseFloat name v jsr =
     (if name = ''account_data'' then setValue parseFloat v (\<lambda>g. jsr\<lparr>AccountData := g\<rparr>)
      else if name = ''to_device'' then setValue parseFloat v (\<lambda>g. jsr\<lparr>ToDevice := g\<rparr>)
      else if name = ''device_lists'' then setValue parseFloat v (\<lambda>g. jsr\<lparr>DeviceLists := g\<rparr>)
      else if name = ''presence'' then setValue parseFloat v (\<lambda>g. jsr\<lparr>Presence' := g\<rparr>)
      else if name = ''rooms'' then setValue parseFloat v (\<lambda>g. jsr\<lparr>Rooms := g\<rparr>)
      else if name = ''groups'' then setValue parseFloat v (\<lambda>g. jsr\<lparr>Groups := g\<rparr>)
      else if name = ''device_one_time_keys_count'' then
        (case v of
           JNull \<Rightarrow> Inr jsr
         | JNumber lit \<Rightarrow>
             (case parseInt lit of
                Some n \<Rightarrow> Inr (jsr\<lparr>DeviceOTKCount := n\<rparr>)
              | None \<Rightarrow> Inl UnmarshalTypeError)
         | _ \<Rightarrow> Inl UnmarshalTypeError)
      else
        (case v of
           JNull \<Rightarrow> Inr jsr
         | JString s \<Rightarrow> Inr (jsr\<lparr>NextBatch := s\<rparr>)
         | _ \<Rightarrow> Inl UnmarshalTypeError))"

fun setMembers ::
  "(string \<Rightarrow> 'f option) \<Rightarrow> (string \<times> json) list \<Rightarrow> 'f SyncResponse \<Rightarrow> jsonError option
     \<Rightarrow> 'f SyncResponse \<times> jsonError option" where
  "setMembers parseFloat [] jsr err = (jsr, err)"
| "setMembers parseFloat ((key, v) # ms) jsr err =
     (case findField key of
        None \<Rightarrow> setMembers parseFloat ms jsr err
      | Some name \<Rightarrow>
          (case setField parseFloat name v jsr of
             Inl e \<Rightarrow> setMembers parseFloat ms jsr (if err = None then Some e else err)
           | Inr jsr' \<Rightarrow> setMembers parseFloat ms jsr' err))"

text \<open>
  \<^verbatim>\<open>json.Unmarshal\<close> into the struct: the whole input is checked first; \<^verbatim>\<open>null\<close> leaves
  the struct as it is, an object is stored member by member, and any other value is an
  \<^verbatim>\<open>UnmarshalTypeError\<close>.
\<close>

definition Unmarshal ::
  "(string \<Rightarrow> 'f option) \<Rightarrow> string \<Rightarrow> 'f SyncResponse \<Rightarrow> 'f SyncResponse \<times> jsonError option" where
  "Unmarshal parseFloat data jsr =
     (case decode data of
        None \<Rightarrow> (jsr, Some SyntaxError)
      | Some JNull \<Rightarrow> (jsr, None)
      | Some (JObject ms) \<Rightarrow> setMembers parseFloat ms jsr None
      | Some _ \<Rightarrow> (jsr, Some UnmarshalTypeError))"

text \<open>
  Printing: a string is quoted with the escapes of \<^verbatim>\<open>json.Marshal\<close>, which also escapes
  \<^verbatim>\<open><\<close>, \<^verbatim>\<open>>\<close>, \<^verbatim>\<open>&\<close>, U+2028 and U+2029 and prints a byte that begins no well-formed
  UTF-8 sequence as the escape of U+FFFD.
\<close>

definition hexDigit :: "nat \<Rightarrow> char" where
  "hexDigit n = (if n < 10 then char_of (48 + n) else char_of (87 + n))"

definition escapeByte :: "char \<Rightarrow> string" where
  "escapeByte c =
     (if c = CHR 0x22 \<or> c = CHR 0x5C then [CHR 0x5C, c]
      else if c = CHR 0x0A then [CHR 0x5C, CHR ''n'']
      else if c = CHR 0x0D then [CHR 0x5C, CHR ''r'']
      else if c = CHR 0x09 then [CHR 0x5C, CHR ''t'']
      else if (of_char c :: nat) < 0x20 \<or> c = CHR ''<'' \<or> c = CHR ''>'' \<or> c = CHR ''&'' then
        [CHR 0x5C, CHR ''u'', CHR ''0'', CHR ''0'', hexDigit (of_char c div 16), hexDigit (of_char c mod 16)]
      else [c])"

fun escapeString :: "nat \<Rightarrow> string \<Rightarrow> string" where
  "escapeString 0 s = []"
| "escapeString (Suc n) [] = []"
| "escapeString (Suc n) (c # cs) =
     (if (of_char c :: nat) < 0x80 then escapeByte c @ escapeString n cs
      else if runeLen (c # cs) = 0 then
        [CHR 0x5C, CHR ''u'', CHR ''f'', CHR ''f'', CHR ''f'', CHR ''d''] @ escapeString n cs
      else if take 3 (c # cs) = [CHR 0xE2, CHR 0x80, CHR 0xA8] then
        [CHR 0x5C, CHR ''u'', CHR ''2'', CHR ''0'', CHR ''2'', CHR ''8''] @ escapeString n (drop 2 cs)
      else if take 3 (c # cs) = [CHR 0xE2, CHR 0x80, CHR 0xA9] then
        [CHR 0x5C, CHR ''u'', CHR ''2'', CHR ''0'', CHR ''2'', CHR ''9''] @ escapeString n (drop 2 cs)
      else take (runeLen (c # cs)) (c # cs) @ escapeString n (drop (runeLen (c # cs)) (c # cs)))"

definition encodeString :: "string \<Rightarrow> string" where
  "encodeString s = [CHR 0x22] @ escapeString (length s) s @ [CHR 0x22]"

fun join :: "string \<Rightarrow> string list \<Rightarrow> string" where
  "join sep [] = []"
| "join sep [x] = x"
| "join sep (x # y # xs) = x @ sep @ join sep (y # xs)"

fun encodeValue :: "('f \<Rightarrow> string) \<Rightarrow> 'f gv \<Rightarrow> string" where
  "encodeValue formatFloat GNil = ''null''"
| "encodeValue formatFloat (GBool b) = (if b then ''true'' else ''false'')"
| "encodeValue formatFloat (GFloat64 f) = formatFloat f"
| "encodeValue formatFloat (GString s) = encodeString s"
| "encodeValue formatFloat (GSlice vs) = ''['' @ join '','' (map (encodeValue formatFloat) vs) @ '']''"
| "encodeValue formatFloat (GMap es) =
     ''{'' @ join '','' (map (\<lambda>kv. encodeString (fst kv) @ '':'' @ encodeValue formatFloat (snd kv)) es)
       @ ''}''"

fun showNat :: "nat \<Rightarrow> string" where
  "showNat n = (if n < 10 then [char_of (48 + n)] else showNat (n div 10) @ [char_of (48 + n mod 10)])"

definition showInt :: "int \<Rightarrow> string" where
  "showInt i = (if i < 0 then ''-'' @ showNat (nat (- i)) else showNat (nat i))"

definition Marshal :: "('f \<Rightarrow> string) \<Rightarrow> 'f SyncResponse \<Rightarrow> string" where
  \<open>Marshal formatFloat jsr =
     ''{"account_data":'' @ encodeValue formatFloat (AccountData jsr) @
     '',"to_device":'' @ encodeValue formatFloat (ToDevice jsr) @
     '',"device_lists":'' @ encodeValue formatFloat (DeviceLists jsr) @
     '',"presence":'' @ encodeValue formatFloat (Presence' jsr) @
     '',"rooms":'' @ encodeValue formatFloat (Rooms jsr) @
     '',"groups":'' @ encodeValue formatFloat (Groups jsr) @
     '',"device_one_time_keys_count":'' @ showInt (DeviceOTKCount jsr) @
     '',"next_batch":'' @ encodeString (NextBatch jsr) @ ''}''\<close>

text \<open>
  \<^verbatim>\<open>
  func PopNextBatch(in []byte) (out []byte, err error) {
      var jsr SyncResponse
      if err = json.Unmarshal(in, &jsr); err != nil {
          return
      }
      jsr.NextBatch = ""
      out, err = json.Marshal(jsr)
      return
  }
  \<close>
  \<^verbatim>\<open>json.Marshal\<close> cannot fail on a value that was decoded from JSON.
\<close>

definition PopNextBatch ::
  "(string \<Rightarrow> 'f option) \<Rightarrow> ('f \<Rightarrow> string) \<Rightarrow> bytes \<Rightarrow> bytes \<times> jsonError option" where
  "PopNextBatch parseFloat formatFloat inp =
     (case Unmarshal parseFloat inp zeroSyncResponse of
        (jsr, Some err) \<Rightarrow> ([], Some err)
      | (jsr, None) \<Rightarrow> (Marshal formatFloat (jsr\<lparr>NextBatch := []\<rparr>), None))"

section \<open>The upstream client\<close>

text \<open>
  What the upstream answers to one sync request, as \<^verbatim>\<open>client.Sync\<close> reports it: the raw
  payload with the cursor it carries, or an error.
\<close>

datatype reply = SyncOk bytes string | SyncFailed error

text \<open>
  Modelled from the spec: \<^verbatim>\<open>proxy.Client.Sync\<close> is declared in the \<^verbatim>\<open>proxy\<close> package,
  which is not part of the sources. It issues one sync request with the client's
  credential, cursor, filter and presence; on success it extracts the resumption token,
  which becomes the client's cursor, and returns the full response body without
  alteration; on failure it returns the classified error. The request is logged with the
  state of the client it is issued from.
\<close>

definition Sync :: "Client \<Rightarrow> bool \<Rightarrow> reply \<Rightarrow> World \<Rightarrow> Client \<times> bytes \<times> error option \<times> World" where
  "Sync client arg r w =
     (case r of
        SyncOk payload nextBatch \<Rightarrow>
          (client\<lparr>NextSyncBatch := nextBatch\<rparr>, payload, None, logEvent (SyncCall client arg) w)
      | SyncFailed err \<Rightarrow> (client, [], Some err, logEvent (SyncCall client arg) w))"

text \<open>
  Modelled from the spec: \<^verbatim>\<open>proxy.Client.UpdatePresence\<close>, also of the \<^verbatim>\<open>proxy\<close>
  package. It issues a single request to the presence endpoint of the upstream,
  independent of the sync cycle; it neither reads nor changes the cursor, and its failure
  is logged and ignored.
\<close>

definition UpdatePresence :: "Client \<Rightarrow> string \<Rightarrow> World \<Rightarrow> World" where
  "UpdatePresence client presence w = logEvent (UpdatePresenceCall client presence) w"

definition isUpstreamCall :: "event \<Rightarrow> bool" where
  "isUpstreamCall e = (case e of SyncCall c a \<Rightarrow> True | UpdatePresenceCall c p \<Rightarrow> True | _ \<Rightarrow> False)"

definition isSyncCall :: "event \<Rightarrow> bool" where
  "isSyncCall e = (case e of SyncCall c a \<Rightarrow> True | _ \<Rightarrow> False)"

definition isUpgradeCall :: "event \<Rightarrow> bool" where
  "isUpgradeCall e = (case e of UpgradeCall ps c \<Rightarrow> True | _ \<Rightarrow> False)"

definition isRead :: "event \<Rightarrow> bool" where
  "isRead e = (case e of ReadConnectionExists b \<Rightarrow> True | _ \<Rightarrow> False)"

section \<open>The websocket upgrade\<close>

text \<open>
  \<^verbatim>\<open>Upgrader.Upgrade\<close> of \<^verbatim>\<open>gorilla/websocket\<close>, seen from the handler. Whether the
  handshake is accepted is decided by the request and the connection. When the library
  refuses the handshake it answers on the response writer itself, through its
  \<^verbatim>\<open>returnError\<close>, with one of four statuses; when it accepts, it takes the connection
  over and writes the response to the connection directly; after that it can still fail,
  without any call on the response writer.
\<close>

datatype refusal = BadRequest | Forbidden | MethodNotAllowed | InternalServerError

datatype upgradeResult = Upgraded | HandshakeError refusal | FailedAfterHijack

definition refusalStatus :: "refusal \<Rightarrow> int" where
  "refusalStatus r =
     (case r of BadRequest \<Rightarrow> 400 | Forbidden \<Rightarrow> 403 | MethodNotAllowed \<Rightarrow> 405
      | InternalServerError \<Rightarrow> 500)"

definition returnError :: "int \<Rightarrow> World \<Rightarrow> panic option \<times> World" where
  "returnError status w =
     http_Error (StatusText status) status (Header_Set ''Sec-Websocket-Version'' ''13'' w)"

definition Upgrade :: "string list \<Rightarrow> bool \<Rightarrow> upgradeResult \<Rightarrow> World \<Rightarrow> bool \<times> panic option \<times> World" where
  "Upgrade subprotocols compression res w =
     (let w1 = logEvent (UpgradeCall subprotocols compression) w in
      case res of
        Upgraded \<Rightarrow> (True, None, w1)
      | HandshakeError r \<Rightarrow> (case returnError (refusalStatus r) w1 of (p, w2) \<Rightarrow> (False, p, w2))
      | FailedAfterHijack \<Rightarrow> (False, None, w1))"

section \<open>The handler of \<^verbatim>\<open>/stream\<close>\<close>

text \<open>
  \<^verbatim>\<open>serveStream\<close>, the same in both source files. After the upgrade the handler hands
  over to the \<^verbatim>\<open>proxy\<close> package: \<^verbatim>\<open>proxy.New\<close>, \<^verbatim>\<open>SendMessage\<close> and \<^verbatim>\<open>Start\<close> are
  logged.
\<close>

definition serveStream :: "Flags \<Rightarrow> upgradeResult \<Rightarrow> reply list \<Rightarrow> World \<Rightarrow> Request \<Rightarrow> outcome \<times> World" where
  "serveStream flags upgrade replies w r =
     (if Method r \<noteq> ''GET'' then ended (httpError StatusMethodNotAllowed w)
      else
        (case resolveAccessToken r of
           Inl p \<Rightarrow> (Panicked p, w)
         | Inr accessToken \<Rightarrow>
             (let client = NewClient (upstreamURL flags) accessToken;
                  client = client\<lparr>NextSyncBatch := Get (Query r) ''since''\<rparr>;
                  client = client\<lparr>Filter := Get (Query r) ''filter''\<rparr>;
                  w = UpdatePresence client (Get (Query r) ''presence'') w
              in case replies of
                   [] \<Rightarrow> (Blocked, logEvent (SyncCall client False) w)
                 | rep # _ \<Rightarrow>
                     (case Sync client False rep w of
                        (client, msg, Some err, w) \<Rightarrow> ended (writeSyncError err w)
                      | (client, msg, None, w) \<Rightarrow>
                          (case Upgrade [''m.json''] (compress flags) upgrade w of
                             (ok, Some p, w) \<Rightarrow> (Panicked p, w)
                           | (False, None, w) \<Rightarrow> (Returned, w)
                           | (True, None, w) \<Rightarrow>
                               (Returned,
                                logEvent Start
                                  (logEvent (SendMessage msg)
                                    (logEvent (NewConnection client)
                                      (logEvent (EnableWriteCompression (compress flags)) w)))))))))"

section \<open>The handler of \<^verbatim>\<open>/events\<close>\<close>

text \<open>
  The loop of \<^verbatim>\<open>serveEventSource\<close> (lines 107--135), entered with the result of the
  sync call before it. The goroutine that waits for the close notification clears
  \<^verbatim>\<open>connectionExists\<close> at a time of its own; the loop reads the flag once in each
  round, and \<open>connectionExists k\<close> is the value the \<open>k\<close>-th read sees.
  \<^verbatim>\<open>fmt.Fprintf\<close> writes its formatted text with one \<^verbatim>\<open>Write\<close>. The error of
  \<^verbatim>\<open>PopNextBatch\<close> is overwritten by the next sync before it is looked at.
\<close>

fun eventLoop ::
  "(string \<Rightarrow> 'f option) \<Rightarrow> ('f \<Rightarrow> string) \<Rightarrow> (nat \<Rightarrow> bool) \<Rightarrow> nat \<Rightarrow> Client \<Rightarrow> bytes \<Rightarrow> error option
     \<Rightarrow> reply list \<Rightarrow> World \<Rightarrow> outcome \<times> World" where
  "eventLoop parseFloat formatFloat connectionExists k client content (Some err) replies rw =
     ended (writeSyncError err rw)"
| "eventLoop parseFloat formatFloat connectionExists k client content None replies rw =
     (let rw = Write (''id: '' @ NextSyncBatch client @ ''\<newline>'') rw;
          rw = Write ''event: sync\<newline>'' rw;
          content = fst (PopNextBatch parseFloat formatFloat content);
          rw = Write (''data: '' @ content @ ''\<newline>\<newline>'') rw;
          rw = Flush rw;
          rw = logEvent (ReadConnectionExists (connectionExists k)) rw
      in if \<not> connectionExists k then (Returned, rw)
         else
           (case replies of
              [] \<Rightarrow> (Blocked, logEvent (SyncCall client True) rw)
            | rep # rest \<Rightarrow>
                (case Sync client True rep rw of
                   (client, content, err, rw) \<Rightarrow>
                     eventLoop parseFloat formatFloat connectionExists (Suc k) client content err rest rw)))"

text \<open>
  \<^verbatim>\<open>serveEventSource\<close>. The two type assertions on the response writer depend on the
  server: \<open>isFlusher\<close> and \<open>isCloseNotifier\<close>; the second assertion has no \<^verbatim>\<open>ok\<close> result
  and panics when it fails.
\<close>

definition serveEventSource ::
  "Flags \<Rightarrow> (string \<Rightarrow> 'f option) \<Rightarrow> ('f \<Rightarrow> string) \<Rightarrow> bool \<Rightarrow> bool \<Rightarrow> (nat \<Rightarrow> bool) \<Rightarrow> reply list
     \<Rightarrow> World \<Rightarrow> Request \<Rightarrow> outcome \<times> World" where
  "serveEventSource flags parseFloat formatFloat isFlusher isCloseNotifier connectionExists replies rw req =
     (if Method req \<noteq> ''GET'' then ended (httpError StatusMethodNotAllowed rw)
      else if \<not> isFlusher then
        ended (http_Error ''Streaming unsupported!'' StatusInternalServerError rw)
      else if \<not> isCloseNotifier then (Panicked (InterfaceConversion ''http.CloseNotifier''), rw)
      else
        (case resolveAccessToken req of
           Inl p \<Rightarrow> (Panicked p, rw)
         | Inr accessToken \<Rightarrow>
             (let client = NewClient (upstreamURL flags) accessToken;
                  client = client\<lparr>Filter := Get (Query req) ''filter''\<rparr>;
                  client = client\<lparr>Presence := Get (Query req) ''presence''\<rparr>;
                  client = client\<lparr>NextSyncBatch := Get (Header req) ''last-event-id''\<rparr>;
                  client = (if NextSyncBatch client = []
                            then client\<lparr>NextSyncBatch := Get (Query req) ''since''\<rparr>
                            else client);
                  rw = Header_Set ''Content-Type'' ''text/event-stream'' rw;
                  rw = Header_Set ''Cache-Control'' ''no-cache'' rw;
                  rw = Header_Set ''Connection'' ''keep-alive'' rw;
                  rw = Header_Set ''Access-Control-Allow-Origin'' ''*'' rw
              in case replies of
                   [] \<Rightarrow> (Blocked, logEvent (SyncCall client False) rw)
                 | rep # rest \<Rightarrow>
                     (case Sync client False rep rw of
                        (client, content, err, rw) \<Rightarrow>
                          eventLoop parseFloat formatFloat connectionExists 0 client content err rest rw))))"

section \<open>Notions for the statements\<close>

text \<open>The events a handler adds to the log of the world it starts from.\<close>

definition eventsOf :: "World \<Rightarrow> outcome \<times> World \<Rightarrow> event list" where
  "eventsOf w res = drop (length (trace w)) (trace (snd res))"

text \<open>What is logged after the first read of \<^verbatim>\<open>connectionExists\<close> that sees it cleared.\<close>

definition afterClosure :: "event list \<Rightarrow> event list" where
  "afterClosure t = drop 1 (dropWhile (\<lambda>e. e \<noteq> ReadConnectionExists False) t)"

text \<open>
  Every read of \<^verbatim>\<open>connectionExists\<close> in a log comes directly after a flush.
\<close>

definition readsFollowFlush :: "event list \<Rightarrow> bool" where
  "readsFollowFlush es \<longleftrightarrow> (\<forall>i<length es. isRead (es ! i) \<longrightarrow> 0 < i \<and> es ! (i - 1) = FlushCall)"

text \<open>
  What the client has received of a response: the status, the content type and the body
  sent so far. \<open>classify\<close> is the triple of the error classifier: the status, content
  type and body of the upstream for the two kinds of error that carry them, and the
  fixed answer of \<^verbatim>\<open>httpError\<close> with status 500 for any other error.
\<close>

definition response :: "World \<Rightarrow> int \<times> string option \<times> bytes" where
  "response w = (sentStatus w, sentHeader w ''Content-Type'', sentBody w)"

definition classify :: "error \<Rightarrow> int \<times> string option \<times> bytes" where
  "classify err =
     (case err of
        MatrixError he code msg \<Rightarrow> (StatusCode he, Some (ContentType he), Body he)
      | HttpErrorPtr he \<Rightarrow> (StatusCode he, Some (ContentType he), Body he)
      | OtherError msg \<Rightarrow>
          (500, Some ''text/plain; charset=utf-8'', ''Internal Server Error\<newline>''))"

text \<open>A request built from its method, its header fields and its query parameters.\<close>

definition mkRequest :: "string \<Rightarrow> (string \<times> string) list \<Rightarrow> (string \<times> string) list \<Rightarrow> Request" where
  "mkRequest m hs qs =
     \<lparr>Method = m,
      Header = (\<lambda>k. map snd (filter (\<lambda>kv. fst kv = k) hs)),
      Query = (\<lambda>k. map snd (filter (\<lambda>kv. fst kv = k) qs))\<rparr>"

text \<open>
  For stating what \<^verbatim>\<open>PopNextBatch\<close> keeps: the six fields of the struct that hold any
  value, the value a struct holds under such a name, whether a member of the payload has
  a field in the struct, and the text of a member as \<^verbatim>\<open>json.Marshal\<close> prints it.
\<close>

definition valueFields :: "string list" where
  "valueFields = [''account_data'', ''to_device'', ''device_lists'', ''presence'', ''rooms'', ''groups'']"

definition fieldOf :: "string \<Rightarrow> 'f SyncResponse \<Rightarrow> 'f gv" where
  "fieldOf name jsr =
     (if name = ''account_data'' then AccountData jsr
      else if name = ''to_device'' then ToDevice jsr
      else if name = ''device_lists'' then DeviceLists jsr
      else if name = ''presence'' then Presence' jsr
      else if name = ''rooms'' then Rooms jsr
      else if name = ''groups'' then Groups jsr
      else GNil)"

definition known :: "string \<times> json \<Rightarrow> bool" where
  "known kv \<longleftrightarrow> findField (fst kv) \<noteq> None"

definition member :: "string \<Rightarrow> string \<Rightarrow> string" where
  "member name text = [CHR 0x22] @ name @ [CHR 0x22] @ '':'' @ text"

text \<open>Sample values: flags, a structured error of the upstream and two transport errors.\<close>

definition flags0 :: Flags where
  "flags0 = \<lparr>compress = False, upstreamURL = ''http://localhost:8008/''\<rparr>"

definition forbidden :: error where
  \<open>forbidden =
     MatrixError \<lparr>StatusCode = 403, ContentType = ''application/json'',
       Body = ''{"errcode":"M_FORBIDDEN","error":"no access"}''\<rparr> ''M_FORBIDDEN'' ''no access''\<close>

definition badGateway :: error where
  "badGateway = HttpErrorPtr \<lparr>StatusCode = 502, ContentType = ''text/html'', Body = ''Bad Gateway''\<rparr>"

definition noResponse :: error where
  "noResponse = HttpErrorPtr \<lparr>StatusCode = 0, ContentType = [], Body = []\<rparr>"

text \<open>
  A payload, a client that has received it, a reconnecting request to \<^verbatim>\<open>/events\<close>, and
  the log of a run of \<^verbatim>\<open>/events\<close> in which the second read of the flag finds the
  connection closed.
\<close>

definition payload0 :: bytes where
  \<open>payload0 = ''{"next_batch":"s9","rooms":{}}''\<close>

definition client0 :: Client where
  "client0 = \<lparr>Url = ''http://localhost:8008/'', AccessToken = ''secret'', NextSyncBatch = ''s9'',
     Filter = [], Presence = []\<rparr>"

definition request0 :: Request where
  "request0 = mkRequest ''GET'' [(''last-event-id'', ''s5'')]
     [(''since'', ''s2''), (''access_token'', ''secret'')]"

definition closedRun :: "event list" where
  "closedRun = eventsOf world0 (serveEventSource flags0 Some id True True (\<lambda>k. k < 1)
     [SyncOk payload0 ''s9'', SyncOk payload0 ''s10'', SyncOk payload0 ''s11''] world0
     (mkRequest ''GET'' [] []))"

text \<open>
  Payloads for \<^verbatim>\<open>PopNextBatch\<close>: one with a member the struct does not list, the same
  without that member, one whose count of one-time keys is an object, as the upstream
  sends it, one with a string and an object that are printed differently, and one with a
  member name in another case and an integer count, with its counterpart without the
  unlisted member.
\<close>

definition payload1 :: bytes where
  \<open>payload1 = ''{"next_batch":"s72","rooms":{"join":{}},"org.example.custom":true}''\<close>

definition payload2 :: bytes where
  \<open>payload2 = ''{"next_batch":"s72","device_one_time_keys_count":{"signed_curve25519":50}}''\<close>

definition payload3 :: bytes where
  \<open>payload3 = ''{"rooms": {"b": [ ], "a": "<x>"}}''\<close>

definition payload4 :: bytes where
  \<open>payload4 = ''{"next_batch":"s72","Rooms":{"join":{}},"device_one_time_keys_count":7,"org.example.custom":true}''\<close>

definition payload5 :: bytes where
  \<open>payload5 = ''{"next_batch":"s72","Rooms":{"join":{}},"device_one_time_keys_count":7}''\<close>

text \<open>
  A sync response as a homeserver sends it, in which \<^verbatim>\<open>device_one_time_keys_count\<close> maps
  each key algorithm to a count.
\<close>

definition syncResponse0 :: bytes where
  \<open>syncResponse0 = ''{"next_batch":"s9","rooms":{},"device_one_time_keys_count":{"signed_curve25519":50}}''\<close>

section \<open>Basic facts\<close>

lemma Get_mkRequest_Header [simp]:
  "Get (Header (mkRequest m hs qs)) k = (case map_of hs k of None \<Rightarrow> [] | Some v \<Rightarrow> v)"
  by (induction hs) (auto simp: mkRequest_def Get_def split: list.splits option.splits)

lemma trace_logEvent [simp]: "trace (logEvent e w) = trace w @ [e]"
  by (simp add: logEvent_def)

lemma wroteHeader_logEvent [simp]: "wroteHeader (logEvent e w) = wroteHeader w"
  and sentBody_logEvent [simp]: "sentBody (logEvent e w) = sentBody w"
  and sentStatus_logEvent [simp]: "sentStatus (logEvent e w) = sentStatus w"
  and sentHeader_logEvent [simp]: "sentHeader (logEvent e w) = sentHeader w"
  and headerMap_logEvent [simp]: "headerMap (logEvent e w) = headerMap w"
  by (simp_all add: logEvent_def)

lemma trace_sendHeader [simp]: "trace (sendHeader c w) = trace w"
  by (simp add: sendHeader_def)

lemma sentBody_sendHeader [simp]: "sentBody (sendHeader c w) = sentBody w"
  by (simp add: sendHeader_def)

lemma trace_Header_Set [simp]: "trace (Header_Set k v w) = trace w @ [HeaderSet k v]"
  by (simp add: Header_Set_def)

lemma state_Header_Set [simp]:
  "wroteHeader (Header_Set k v w) = wroteHeader w"
  "sentBody (Header_Set k v w) = sentBody w"
  "sentStatus (Header_Set k v w) = sentStatus w"
  "sentHeader (Header_Set k v w) = sentHeader w"
  "headerMap (Header_Set k v w) = (headerMap w)(k := Some v)"
  by (simp_all add: Header_Set_def)

lemma trace_WriteHeader [simp]: "trace (snd (WriteHeader c w)) = trace w @ [WriteHeaderCall c]"
  by (simp add: WriteHeader_def Let_def)

lemma sentBody_WriteHeader [simp]: "sentBody (snd (WriteHeader c w)) = sentBody w"
  by (simp add: WriteHeader_def Let_def)

lemma trace_Write [simp]: "trace (Write b w) = trace w @ [WriteCall b]"
  by (simp add: Write_def Let_def)

lemma trace_Flush [simp]: "trace (Flush w) = trace w @ [FlushCall]"
  by (simp add: Flush_def)

lemma sentBody_Flush [simp]: "sentBody (Flush w) = sentBody w"
  by (simp add: Flush_def)

lemma snd_ended [simp]: "snd (ended r) = snd r"
  by (cases r) (simp add: ended_def split: option.splits)

lemma eventsOf_append [simp]: "trace (snd res) = trace w @ es \<Longrightarrow> eventsOf w res = es"
  by (simp add: eventsOf_def)

text \<open>A call of \<^verbatim>\<open>WriteHeader\<close> with a valid code on a response that has not begun.\<close>

lemma fresh_WriteHeader:
  assumes "\<not> wroteHeader w" and "100 \<le> code" and "code \<le> 999"
  shows "WriteHeader code w =
     (None, logEvent (WriteHeaderCall code)
        (w\<lparr>wroteHeader := True, sentStatus := code, sentHeader := headerMap w\<rparr>))"
  using assms by (simp add: WriteHeader_def Let_def sendHeader_def logEvent_def)

lemma late_WriteHeader:
  "wroteHeader w \<Longrightarrow> WriteHeader code w = (None, logEvent (WriteHeaderCall code) w)"
  by (simp add: WriteHeader_def Let_def)

lemma invalid_WriteHeader:
  "\<not> wroteHeader w \<Longrightarrow> code < 100 \<or> 999 < code \<Longrightarrow>
     WriteHeader code w = (Some (InvalidWriteHeaderCode code), logEvent (WriteHeaderCall code) w)"
  by (auto simp: WriteHeader_def Let_def)

lemma fresh_http_Error:
  assumes "\<not> wroteHeader w" and "100 \<le> code" and "code \<le> 999"
  shows "fst (http_Error msg code w) = None"
    and "sentStatus (snd (http_Error msg code w)) = code"
    and "sentBody (snd (http_Error msg code w)) =
           sentBody w @ (if bodyAllowedForStatus code then msg @ ''\<newline>'' else [])"
    and "sentHeader (snd (http_Error msg code w)) ''Content-Type'' = Some ''text/plain; charset=utf-8''"
    and "trace (snd (http_Error msg code w)) = trace w @
           [HeaderSet ''Content-Type'' ''text/plain; charset=utf-8'',
            HeaderSet ''X-Content-Type-Options'' ''nosniff'', WriteHeaderCall code,
            WriteCall (msg @ ''\<newline>'')]"
  using assms
  by (simp_all add: http_Error_def fresh_WriteHeader Write_def sendHeader_def Let_def)

lemma fresh_handleHttpError:
  assumes "\<not> wroteHeader w" and "100 \<le> StatusCode he" and "StatusCode he \<le> 999"
  shows "fst (handleHttpError he w) = None"
    and "sentStatus (snd (handleHttpError he w)) = StatusCode he"
    and "sentBody (snd (handleHttpError he w)) =
           sentBody w @ (if bodyAllowedForStatus (StatusCode he) then Body he else [])"
    and "sentHeader (snd (handleHttpError he w)) ''Content-Type'' = Some (ContentType he)"
    and "trace (snd (handleHttpError he w)) = trace w @
           [HeaderSet ''Content-Type'' (ContentType he), WriteHeaderCall (StatusCode he),
            WriteCall (Body he)]"
  using assms
  by (simp_all add: handleHttpError_def fresh_WriteHeader Write_def sendHeader_def Let_def)

lemma invalid_handleHttpError:
  assumes "\<not> wroteHeader w" and "StatusCode he < 100 \<or> 999 < StatusCode he"
  shows "handleHttpError he w =
     (Some (InvalidWriteHeaderCode (StatusCode he)),
      logEvent (WriteHeaderCall (StatusCode he)) (Header_Set ''Content-Type'' (ContentType he) w))"
  using assms by (simp add: handleHttpError_def invalid_WriteHeader)

lemma late_handleHttpError:
  assumes "wroteHeader w"
  shows "handleHttpError he w =
     (None, Write (Body he) (logEvent (WriteHeaderCall (StatusCode he))
        (Header_Set ''Content-Type'' (ContentType he) w)))"
  using assms by (simp add: handleHttpError_def late_WriteHeader)

text \<open>What the error switch logs holds no read of the flag.\<close>

lemma noReads_WriteHeader: "\<not> isRead (WriteHeaderCall c)" "\<not> isRead (HeaderSet k v)"
  "\<not> isRead (WriteCall b)" "\<not> isRead FlushCall" "\<not> isRead (SyncCall cl a)"
  by (simp_all add: isRead_def)

lemma trace_http_Error:
  "\<exists>es. trace (snd (http_Error msg code w)) = trace w @ es \<and> list_all (\<lambda>e. \<not> isRead e) es"
  by (cases "WriteHeader code (Header_Set ''X-Content-Type-Options'' ''nosniff''
        (Header_Set ''Content-Type'' ''text/plain; charset=utf-8'' w))")
    (auto simp: http_Error_def WriteHeader_def Let_def isRead_def split: if_splits option.splits)

lemma trace_handleHttpError:
  "\<exists>es. trace (snd (handleHttpError he w)) = trace w @ es \<and> list_all (\<lambda>e. \<not> isRead e) es"
  by (cases "WriteHeader (StatusCode he) (Header_Set ''Content-Type'' (ContentType he) w)")
    (auto simp: handleHttpError_def WriteHeader_def Let_def isRead_def split: if_splits option.splits)

lemma trace_writeSyncError:
  "\<exists>es. trace (snd (writeSyncError err w)) = trace w @ es \<and> list_all (\<lambda>e. \<not> isRead e) es"
  by (cases err) (simp_all add: writeSyncError_def httpError_def trace_http_Error trace_handleHttpError)

lemma sentBody_writeSyncError: "\<exists>more. sentBody (snd (writeSyncError err w)) = sentBody w @ more"
  by (cases err)
    (auto simp: writeSyncError_def httpError_def http_Error_def handleHttpError_def WriteHeader_def
      Write_def Let_def sendHeader_def split: if_splits)

lemma noReads_afterClosure: "list_all (\<lambda>e. \<not> isRead e) es \<Longrightarrow> afterClosure es = []"
proof -
  assume "list_all (\<lambda>e. \<not> isRead e) es"
  then have "\<forall>e\<in>set es. e \<noteq> ReadConnectionExists False"
    by (auto simp: list_all_iff isRead_def)
  then have "dropWhile (\<lambda>e. e \<noteq> ReadConnectionExists False) es = []"
    by (simp only: dropWhile_eq_Nil_conv)
  then show ?thesis
    by (simp only: afterClosure_def drop_Nil)
qed

lemma noReads_readsFollowFlush: "list_all (\<lambda>e. \<not> isRead e) es \<Longrightarrow> readsFollowFlush es"
  by (auto simp: readsFollowFlush_def list_all_length)

subsection \<open>Credential resolution\<close>

lemma take_6_not_Bearer: "take 6 s \<noteq> ''Bearer ''"
proof
  assume "take 6 s = ''Bearer ''"
  then have "length (take 6 s) = length ''Bearer ''"
    by (rule arg_cong)
  then show False
    by simp
qed

lemma slice_0_6_not_Bearer: "slice s 0 6 \<noteq> Inr ''Bearer ''"
  by (simp add: slice_def take_6_not_Bearer)

lemma resolveAccessToken_header:
  "6 \<le> length (Get (Header req) ''Authorization'') \<Longrightarrow>
     resolveAccessToken req = Inr (Get (Header req) ''Authorization'')"
  by (auto simp: resolveAccessToken_def Let_def slice_def take_6_not_Bearer)

lemma resolveAccessToken_parameter:
  "Get (Header req) ''Authorization'' = [] \<Longrightarrow>
     resolveAccessToken req = Inr (Get (Query req) ''access_token'')"
  by (simp add: resolveAccessToken_def)

lemma resolveAccessToken_short:
  "Get (Header req) ''Authorization'' \<noteq> [] \<Longrightarrow> length (Get (Header req) ''Authorization'') < 6 \<Longrightarrow>
     resolveAccessToken req = Inl (SliceBoundsOutOfRange 6 (length (Get (Header req) ''Authorization'')))"
  by (auto simp: resolveAccessToken_def Let_def slice_def)

subsection \<open>The log and the body of the loop\<close>

lemma readsFollowFlush_round:
  assumes "readsFollowFlush es"
  shows "readsFollowFlush (WriteCall a # WriteCall b # WriteCall c # FlushCall
           # ReadConnectionExists x # SyncCall cl y # es)"
  unfolding readsFollowFlush_def
proof (intro allI impI)
  fix i
  assume i: "i < length (WriteCall a # WriteCall b # WriteCall c # FlushCall
           # ReadConnectionExists x # SyncCall cl y # es)"
    and r: "isRead ((WriteCall a # WriteCall b # WriteCall c # FlushCall
           # ReadConnectionExists x # SyncCall cl y # es) ! i)"
  consider "i < 6" | "6 \<le> i" by linarith
  then show "0 < i \<and> (WriteCall a # WriteCall b # WriteCall c # FlushCall
           # ReadConnectionExists x # SyncCall cl y # es) ! (i - 1) = FlushCall"
  proof cases
    case 1
    then have "i = 0 \<or> i = 1 \<or> i = 2 \<or> i = 3 \<or> i = 4 \<or> i = 5" by linarith
    with r show ?thesis by (auto simp: isRead_def)
  next
    case 2
    then obtain j where j: "i = 6 + j" using le_Suc_ex by blast
    with i r have "j < length es" "isRead (es ! j)" by simp_all
    with assms have "0 < j \<and> es ! (j - 1) = FlushCall"
      by (simp add: readsFollowFlush_def)
    then show ?thesis using j by (simp add: nth_Cons')
  qed
qed

lemma eventLoop_events:
  "\<exists>es. trace (snd (eventLoop parseFloat formatFloat connectionExists k client content err replies rw))
        = trace rw @ es
      \<and> afterClosure es = [] \<and> readsFollowFlush es"
proof (induction parseFloat formatFloat connectionExists k client content err replies rw
    rule: eventLoop.induct)
  case (1 parseFloat formatFloat connectionExists k client content err replies rw)
  obtain es where "trace (snd (writeSyncError err rw)) = trace rw @ es"
    "list_all (\<lambda>e. \<not> isRead e) es"
    using trace_writeSyncError by blast
  then show ?case
    by (simp add: noReads_afterClosure noReads_readsFollowFlush)
next
  case (2 parseFloat formatFloat connectionExists k client content replies rw)
  let ?a = "WriteCall (''id: '' @ NextSyncBatch client @ ''\<newline>'')"
  let ?b = "WriteCall ''event: sync\<newline>''"
  let ?c = "WriteCall (''data: '' @ fst (PopNextBatch parseFloat formatFloat content) @ ''\<newline>\<newline>'')"
  show ?case
  proof (cases "connectionExists k")
    case False
    then show ?thesis
      by (auto simp: Let_def afterClosure_def readsFollowFlush_def isRead_def nth_Cons' )
  next
    case True
    show ?thesis
    proof (cases replies)
      case Nil
      have "readsFollowFlush (?a # ?b # ?c # FlushCall # ReadConnectionExists True # SyncCall client True # [])"
        by (rule readsFollowFlush_round) (simp add: readsFollowFlush_def)
      with True Nil show ?thesis
        by (simp add: Let_def afterClosure_def)
    next
      case (Cons rep rest)
      obtain client' content' err' rw' where
        s: "Sync client True rep (logEvent (ReadConnectionExists (connectionExists k))
              (Flush (Write (''data: '' @ fst (PopNextBatch parseFloat formatFloat content) @ ''\<newline>\<newline>'')
                (Write ''event: sync\<newline>''
                  (Write (''id: '' @ NextSyncBatch client @ ''\<newline>'') rw)))))
            = (client', content', err', rw')"
        using prod_cases4 by blast
      then have t: "trace rw' = trace rw @ [?a, ?b, ?c, FlushCall, ReadConnectionExists True, SyncCall client True]"
        using True by (auto simp: Sync_def split: reply.splits)
      have "\<not> \<not> connectionExists k"
        using True by simp
      from "2.IH" [OF refl refl refl refl refl refl this Cons s [symmetric] refl refl]
      obtain es where es: "trace (snd (eventLoop parseFloat formatFloat connectionExists (Suc k) client' content' err' rest rw'))
           = trace rw' @ es" "afterClosure es = []" "readsFollowFlush es"
        by auto
      have "readsFollowFlush (?a # ?b # ?c # FlushCall # ReadConnectionExists True # SyncCall client True # es)"
        by (rule readsFollowFlush_round) (rule es(3))
      moreover have "afterClosure (?a # ?b # ?c # FlushCall # ReadConnectionExists True # SyncCall client True # es) = []"
        using es(2) by (simp add: afterClosure_def)
      ultimately show ?thesis
        using True Cons s es(1) t by (simp add: Let_def)
    qed
  qed
qed

lemma readsFollowFlush_Cons:
  assumes "readsFollowFlush es" and "\<not> isRead e"
  shows "readsFollowFlush (e # es)"
  unfolding readsFollowFlush_def
proof (intro allI impI)
  fix i
  assume i: "i < length (e # es)" and r: "isRead ((e # es) ! i)"
  with assms(2) obtain j where j: "i = Suc j"
    by (cases i) auto
  with i r have "j < length es" "isRead (es ! j)"
    by simp_all
  with assms(1) have "0 < j \<and> es ! (j - 1) = FlushCall"
    by (simp add: readsFollowFlush_def)
  then show "0 < i \<and> (e # es) ! (i - 1) = FlushCall"
    using j by (simp add: nth_Cons')
qed

lemma readsFollowFlush_Nil: "readsFollowFlush []"
  by (simp add: readsFollowFlush_def)

lemma serveEventSource_events:
  assumes "Method req = ''GET''" and "resolveAccessToken req = Inr accessToken"
    and "client = \<lparr>Url = upstreamURL flags, AccessToken = accessToken,
           NextSyncBatch = (if Get (Header req) ''last-event-id'' \<noteq> []
             then Get (Header req) ''last-event-id'' else Get (Query req) ''since''),
           Filter = Get (Query req) ''filter'', Presence = Get (Query req) ''presence''\<rparr>"
  shows "\<exists>es. eventsOf rw (serveEventSource flags parseFloat formatFloat True True connectionExists replies rw req) =
     [HeaderSet ''Content-Type'' ''text/event-stream'', HeaderSet ''Cache-Control'' ''no-cache'',
      HeaderSet ''Connection'' ''keep-alive'', HeaderSet ''Access-Control-Allow-Origin'' ''*'',
      SyncCall client False] @ es
     \<and> afterClosure es = [] \<and> readsFollowFlush es"
proof (cases replies)
  case Nil
  then show ?thesis
    using assms
    by (simp add: serveEventSource_def NewClient_def Let_def eventsOf_def afterClosure_def
        readsFollowFlush_Nil)
next
  case (Cons rep rest)
  let ?rw = "Header_Set ''Access-Control-Allow-Origin'' ''*''
     (Header_Set ''Connection'' ''keep-alive''
       (Header_Set ''Cache-Control'' ''no-cache''
         (Header_Set ''Content-Type'' ''text/event-stream'' rw)))"
  obtain client' content err rw' where s: "Sync client False rep ?rw = (client', content, err, rw')"
    using prod_cases4 by blast
  then have t: "trace rw' = trace ?rw @ [SyncCall client False]"
    by (auto simp: Sync_def split: reply.splits)
  obtain es where es:
    "trace (snd (eventLoop parseFloat formatFloat connectionExists 0 client' content err rest rw')) = trace rw' @ es"
    "afterClosure es = []" "readsFollowFlush es"
    using eventLoop_events by blast
  have "serveEventSource flags parseFloat formatFloat True True connectionExists replies rw req =
      eventLoop parseFloat formatFloat connectionExists 0 client' content err rest rw'"
  proof (cases "Get (Header req) ''last-event-id'' = []")
    case True
    with assms Cons s show ?thesis
      by (simp add: serveEventSource_def NewClient_def Let_def)
  next
    case False
    with assms Cons s show ?thesis
      by (simp add: serveEventSource_def NewClient_def Let_def)
  qed
  then show ?thesis
    using es t by (simp add: eventsOf_def)
qed

lemma serveEventSource_other:
  assumes "Method req \<noteq> ''GET'' \<or> \<not> isFlusher \<or> \<not> isCloseNotifier \<or> resolveAccessToken req = Inl p"
  shows "afterClosure (eventsOf rw (serveEventSource flags parseFloat formatFloat isFlusher isCloseNotifier
            connectionExists replies rw req)) = []
     \<and> readsFollowFlush (eventsOf rw (serveEventSource flags parseFloat formatFloat isFlusher isCloseNotifier
            connectionExists replies rw req))"
proof -
  let ?res = "serveEventSource flags parseFloat formatFloat isFlusher isCloseNotifier
            connectionExists replies rw req"
  have "\<exists>es. trace (snd ?res) = trace rw @ es \<and> list_all (\<lambda>e. \<not> isRead e) es"
  proof (cases "Method req \<noteq> ''GET''")
    case True
    then show ?thesis
      by (simp add: serveEventSource_def httpError_def trace_http_Error)
  next
    case m: False
    show ?thesis
    proof (cases isFlusher)
      case False
      with m show ?thesis
        by (simp add: serveEventSource_def trace_http_Error)
    next
      case f: True
      show ?thesis
      proof (cases isCloseNotifier)
        case False
        with m f show ?thesis
          by (simp add: serveEventSource_def)
      next
        case True
        with m f assms show ?thesis
          by (simp add: serveEventSource_def)
      qed
    qed
  qed
  then obtain es where "trace (snd ?res) = trace rw @ es" "list_all (\<lambda>e. \<not> isRead e) es"
    by blast
  then show ?thesis
    by (simp add: noReads_afterClosure noReads_readsFollowFlush)
qed

lemma sentBody_Write: "\<exists>more. sentBody (Write b w) = sentBody w @ more"
  by (simp add: Write_def Let_def)

lemma sentBody_Write_begun:
  "wroteHeader w \<Longrightarrow> bodyAllowedForStatus (sentStatus w) \<Longrightarrow> sentBody (Write b w) = sentBody w @ b"
  by (simp add: Write_def Let_def sendHeader_def)

lemma sentBody_Write_fresh:
  "\<not> wroteHeader w \<Longrightarrow> sentBody (Write b w) = sentBody w @ b"
  by (simp add: Write_def Let_def sendHeader_def bodyAllowedForStatus_def)

lemma sentBody_Sync: "Sync client a rep w = (client', content, err, w') \<Longrightarrow> sentBody w' = sentBody w"
  by (auto simp: Sync_def split: reply.splits)

lemma eventLoop_body:
  "\<exists>more. sentBody (snd (eventLoop parseFloat formatFloat connectionExists k client content err replies rw))
      = sentBody rw @ more"
proof (induction parseFloat formatFloat connectionExists k client content err replies rw
    rule: eventLoop.induct)
  case (1 parseFloat formatFloat connectionExists k client content err replies rw)
  show ?case
    by (simp add: sentBody_writeSyncError)
next
  case (2 parseFloat formatFloat connectionExists k client content replies rw)
  let ?rw1 = "Write (''id: '' @ NextSyncBatch client @ ''\<newline>'') rw"
  let ?rw2 = "Write ''event: sync\<newline>'' ?rw1"
  let ?rw3 = "Write (''data: '' @ fst (PopNextBatch parseFloat formatFloat content) @ ''\<newline>\<newline>'') ?rw2"
  obtain m1 where m1: "sentBody ?rw1 = sentBody rw @ m1"
    using sentBody_Write by blast
  obtain m2 where m2: "sentBody ?rw2 = sentBody ?rw1 @ m2"
    using sentBody_Write by blast
  obtain m3 where m3: "sentBody ?rw3 = sentBody ?rw2 @ m3"
    using sentBody_Write by blast
  have b: "sentBody ?rw3 = sentBody rw @ (m1 @ m2 @ m3)"
    by (simp only: m1 m2 m3 append_assoc)
  show ?case
  proof (cases "connectionExists k")
    case False
    then show ?thesis
      using b by (simp add: Let_def)
  next
    case True
    show ?thesis
    proof (cases replies)
      case Nil
      with True show ?thesis
        using b by (simp add: Let_def)
    next
      case (Cons rep rest)
      obtain client' content' err' rw' where
        s: "Sync client True rep (logEvent (ReadConnectionExists (connectionExists k)) (Flush ?rw3))
            = (client', content', err', rw')"
        using prod_cases4 by blast
      have "\<not> \<not> connectionExists k"
        using True by simp
      from "2.IH" [OF refl refl refl refl refl refl this Cons s [symmetric] refl refl]
      obtain more where "sentBody (snd (eventLoop parseFloat formatFloat connectionExists (Suc k) client' content' err' rest rw'))
           = sentBody rw' @ more"
        by auto
      moreover have "sentBody rw' = sentBody rw @ (m1 @ m2 @ m3)"
        using sentBody_Sync [OF s] b by simp
      ultimately have "sentBody (snd (eventLoop parseFloat formatFloat connectionExists (Suc k) client' content' err' rest rw'))
           = sentBody rw @ ((m1 @ m2 @ m3) @ more)"
        by (simp only: append_assoc)
      then show ?thesis
        using True Cons s by (simp add: Let_def)
    qed
  qed
qed

text \<open>
  A round of the loop that is entered with a successful sync: three calls of \<^verbatim>\<open>Write\<close>,
  with the cursor of the client, the event name and whatever \<^verbatim>\<open>PopNextBatch\<close> returned,
  then the flush.
\<close>

lemma eventLoop_round:
  "\<exists>es. eventsOf rw (eventLoop parseFloat formatFloat connectionExists k client content None replies rw) =
       [WriteCall (''id: '' @ NextSyncBatch client @ ''\<newline>''),
        WriteCall ''event: sync\<newline>'',
        WriteCall (''data: '' @ fst (PopNextBatch parseFloat formatFloat content) @ ''\<newline>\<newline>''),
        FlushCall] @ es"
proof (cases "connectionExists k")
  case False
  then show ?thesis
    by (simp add: Let_def eventsOf_def)
next
  case True
  show ?thesis
  proof (cases replies)
    case Nil
    with True show ?thesis
      by (simp add: Let_def eventsOf_def)
  next
    case (Cons rep rest)
    let ?rw = "logEvent (ReadConnectionExists (connectionExists k))
              (Flush (Write (''data: '' @ fst (PopNextBatch parseFloat formatFloat content) @ ''\<newline>\<newline>'')
                (Write ''event: sync\<newline>''
                  (Write (''id: '' @ NextSyncBatch client @ ''\<newline>'') rw))))"
    obtain client' content' err' rw' where s: "Sync client True rep ?rw = (client', content', err', rw')"
      using prod_cases4 by blast
    then have t: "trace rw' = trace ?rw @ [SyncCall client True]"
      by (auto simp: Sync_def split: reply.splits)
    obtain es where es: "trace (snd (eventLoop parseFloat formatFloat connectionExists (Suc k) client' content' err' rest rw'))
        = trace rw' @ es"
      using eventLoop_events by blast
    show ?thesis
      using True Cons s t es by (simp add: Let_def eventsOf_def)
  qed
qed

lemma PopNextBatch_payload0:
  \<open>fst (PopNextBatch Some id payload0) =
     ''{"account_data":null,"to_device":null,"device_lists":null,"presence":null,"rooms":{},"groups":null,"device_one_time_keys_count":0,"next_batch":""}''\<close>
  by code_simp

text \<open>
  A failure of the first sync on \<^verbatim>\<open>/events\<close>, with a status that \<^verbatim>\<open>net/http\<close> accepts
  and that allows a body.
\<close>

lemma initial_failure_is_relayed:
  assumes "Method req = ''GET''" and "resolveAccessToken req = Inr accessToken"
    and "\<not> wroteHeader rw" and "sentBody rw = []"
    and "100 \<le> fst (classify err)" and "fst (classify err) \<le> 999"
    and "bodyAllowedForStatus (fst (classify err))"
  shows "response (snd (serveEventSource flags parseFloat formatFloat True True connectionExists
           (SyncFailed err # rest) rw req)) = classify err"
proof -
  have "\<not> wroteHeader w \<Longrightarrow> sentBody w = [] \<Longrightarrow>
      response (snd (eventLoop parseFloat formatFloat connectionExists 0 c [] (Some err) rest
        (logEvent (SyncCall c False)
          (Header_Set ''Access-Control-Allow-Origin'' ''*''
            (Header_Set ''Connection'' ''keep-alive''
              (Header_Set ''Cache-Control'' ''no-cache''
                (Header_Set ''Content-Type'' ''text/event-stream'' w))))))) = classify err" for c w
    using assms(5-7)
    by (cases err)
      (simp_all add: response_def classify_def writeSyncError_def handleHttpError_def httpError_def
        http_Error_def Write_def WriteHeader_def Header_Set_def sendHeader_def logEvent_def Let_def
        StatusInternalServerError_def StatusText_def bodyAllowedForStatus_def)
  with assms show ?thesis
    by (simp add: serveEventSource_def Sync_def Let_def)
qed

lemma closedRun_read: "length closedRun = 16 \<and> closedRun ! 15 = ReadConnectionExists False"
  by code_simp

lemma fst_ended: "fst (ended r) = (case fst r of None \<Rightarrow> Returned | Some p \<Rightarrow> Panicked p)"
  by (cases r) (simp add: ended_def split: option.splits)

lemma noUpgrade_writeSyncError:
  "trace (snd (writeSyncError err w)) = trace w @ es \<Longrightarrow> filter isUpgradeCall es = []"
proof -
  assume a: "trace (snd (writeSyncError err w)) = trace w @ es"
  have "\<exists>es. trace (snd (http_Error msg code w)) = trace w @ es \<and> filter isUpgradeCall es = []"
    for msg code
    by (cases "WriteHeader code (Header_Set ''X-Content-Type-Options'' ''nosniff''
        (Header_Set ''Content-Type'' ''text/plain; charset=utf-8'' w))")
      (auto simp: http_Error_def WriteHeader_def Let_def isUpgradeCall_def split: if_splits option.splits)
  moreover have "\<exists>es. trace (snd (handleHttpError he w)) = trace w @ es \<and> filter isUpgradeCall es = []"
    for he
    by (cases "WriteHeader (StatusCode he) (Header_Set ''Content-Type'' (ContentType he) w)")
      (auto simp: handleHttpError_def WriteHeader_def Let_def isUpgradeCall_def split: if_splits option.splits)
  ultimately have "\<exists>es. trace (snd (writeSyncError err w)) = trace w @ es \<and> filter isUpgradeCall es = []"
    by (cases err) (simp_all add: writeSyncError_def httpError_def)
  with a show ?thesis
    by auto
qed

text \<open>
  The log of \<^verbatim>\<open>serveStream\<close> for a \<^verbatim>\<open>GET\<close> request whose credential resolves: the
  presence update and the sync come first; after a failed sync no upgrade is called, and
  after a successful one the upgrade is called with the sub-protocol \<^verbatim>\<open>m.json\<close>. What
  follows the upgrade depends on its result: the payload is sent when it succeeded, and
  the library has answered itself when it refused the handshake.
\<close>

lemma serveStream_log:
  assumes "Method r = ''GET''" and "resolveAccessToken r = Inr accessToken"
    and "\<not> wroteHeader w"
    and "client = \<lparr>Url = upstreamURL flags, AccessToken = accessToken,
           NextSyncBatch = Get (Query r) ''since'', Filter = Get (Query r) ''filter'', Presence = []\<rparr>"
  shows "case replies of
       [] \<Rightarrow> eventsOf w (serveStream flags upgrade replies w r) =
           [UpdatePresenceCall client (Get (Query r) ''presence''), SyncCall client False]
     | SyncFailed err # rest \<Rightarrow>
         (\<exists>es. eventsOf w (serveStream flags upgrade replies w r) =
             [UpdatePresenceCall client (Get (Query r) ''presence''), SyncCall client False] @ es
           \<and> filter isUpgradeCall es = [])
     | SyncOk payload nextBatch # rest \<Rightarrow>
           eventsOf w (serveStream flags upgrade replies w r) =
             [UpdatePresenceCall client (Get (Query r) ''presence''), SyncCall client False,
              UpgradeCall [''m.json''] (compress flags)]
               @ (case upgrade of
                    Upgraded \<Rightarrow>
                      [EnableWriteCompression (compress flags),
                       NewConnection (client\<lparr>NextSyncBatch := nextBatch\<rparr>),
                       SendMessage payload, Start]
                  | HandshakeError refusal \<Rightarrow>
                      [HeaderSet ''Sec-Websocket-Version'' ''13'',
                       HeaderSet ''Content-Type'' ''text/plain; charset=utf-8'',
                       HeaderSet ''X-Content-Type-Options'' ''nosniff'',
                       WriteHeaderCall (refusalStatus refusal),
                       WriteCall (StatusText (refusalStatus refusal) @ ''\<newline>'')]
                  | FailedAfterHijack \<Rightarrow> [])"
proof (cases replies)
  case Nil
  show ?thesis
    unfolding Nil using assms
    by (simp add: serveStream_def NewClient_def UpdatePresence_def eventsOf_def Let_def)
next
  case (Cons rep rest)
  show ?thesis
  proof (cases rep)
    case (SyncOk payload nextBatch)
    show ?thesis
    proof (cases upgrade)
      case Upgraded
      show ?thesis
        unfolding Cons SyncOk Upgraded using assms
        by (simp add: serveStream_def NewClient_def UpdatePresence_def Sync_def Upgrade_def
            eventsOf_def Let_def)
    next
      case (HandshakeError refusal)
      have v: "100 \<le> refusalStatus refusal" "refusalStatus refusal \<le> 999"
        by (cases refusal; simp add: refusalStatus_def)+
      have f: "\<not> wroteHeader (Header_Set ''Sec-Websocket-Version'' ''13''
          (logEvent (UpgradeCall [''m.json''] (compress flags))
            (logEvent (SyncCall client False)
              (logEvent (UpdatePresenceCall client (Get (Query r) ''presence'')) w))))"
        using assms(3) by simp
      let ?w1 = "Header_Set ''Sec-Websocket-Version'' ''13''
          (logEvent (UpgradeCall [''m.json''] (compress flags))
            (logEvent (SyncCall client False)
              (logEvent (UpdatePresenceCall client (Get (Query r) ''presence'')) w)))"
      note e = fresh_http_Error(1,5) [OF f v, of "StatusText (refusalStatus refusal)"]
      obtain p w2 where h: "http_Error (StatusText (refusalStatus refusal)) (refusalStatus refusal) ?w1
          = (p, w2)"
        by fastforce
      have p: "p = None"
        using e(1) h by simp
      have t: "trace w2 = trace w @
          [UpdatePresenceCall client (Get (Query r) ''presence''), SyncCall client False,
           UpgradeCall [''m.json''] (compress flags),
           HeaderSet ''Sec-Websocket-Version'' ''13'',
           HeaderSet ''Content-Type'' ''text/plain; charset=utf-8'',
           HeaderSet ''X-Content-Type-Options'' ''nosniff'',
           WriteHeaderCall (refusalStatus refusal),
           WriteCall (StatusText (refusalStatus refusal) @ ''\<newline>'')]"
        using e(2) h by simp
      have "serveStream flags upgrade replies w r = (Returned, w2)"
        unfolding Cons SyncOk HandshakeError using assms(1,2,4) h p
        by (simp add: serveStream_def NewClient_def UpdatePresence_def Sync_def Upgrade_def
            returnError_def Let_def)
      then show ?thesis
        unfolding Cons SyncOk HandshakeError using t by (simp add: eventsOf_def)
    next
      case FailedAfterHijack
      show ?thesis
        unfolding Cons SyncOk FailedAfterHijack using assms
        by (simp add: serveStream_def NewClient_def UpdatePresence_def Sync_def Upgrade_def
            eventsOf_def Let_def)
    qed
  next
    case (SyncFailed err)
    let ?w = "logEvent (SyncCall client False)
              (logEvent (UpdatePresenceCall client (Get (Query r) ''presence'')) w)"
    obtain es where es: "trace (snd (writeSyncError err ?w)) = trace ?w @ es"
      using trace_writeSyncError by blast
    have n: "filter isUpgradeCall es = []"
      using es by (rule noUpgrade_writeSyncError)
    have "serveStream flags upgrade replies w r = ended (writeSyncError err ?w)"
      unfolding Cons SyncFailed using assms
      by (simp add: serveStream_def NewClient_def UpdatePresence_def Sync_def Let_def)
    then have "eventsOf w (serveStream flags upgrade replies w r) =
        [UpdatePresenceCall client (Get (Query r) ''presence''), SyncCall client False] @ es"
      using es by (simp add: eventsOf_def)
    with n show ?thesis
      unfolding Cons SyncFailed by simp
  qed
qed

text \<open>
  A failure of the first sync on \<^verbatim>\<open>/stream\<close>, with a status that \<^verbatim>\<open>net/http\<close> accepts
  and that allows a body.
\<close>

lemma serveStream_failure_is_relayed:
  assumes "Method r = ''GET''" and "resolveAccessToken r = Inr accessToken"
    and "\<not> wroteHeader w" and "sentBody w = []"
    and "100 \<le> fst (classify err)" and "fst (classify err) \<le> 999"
    and "bodyAllowedForStatus (fst (classify err))"
  shows "response (snd (serveStream flags upgrade (SyncFailed err # rest) w r)) = classify err"
    and "fst (serveStream flags upgrade (SyncFailed err # rest) w r) = Returned"
proof -
  let ?c = "NewClient (upstreamURL flags) accessToken
      \<lparr>NextSyncBatch := Get (Query r) ''since'', Filter := Get (Query r) ''filter''\<rparr>"
  let ?w = "logEvent (SyncCall ?c False) (logEvent (UpdatePresenceCall ?c (Get (Query r) ''presence'')) w)"
  have "\<not> wroteHeader w' \<Longrightarrow> sentBody w' = [] \<Longrightarrow>
      response (snd (writeSyncError err w')) = classify err \<and> fst (writeSyncError err w') = None" for w'
    using assms(5-7)
    by (cases err)
      (simp_all add: response_def classify_def writeSyncError_def handleHttpError_def httpError_def
        http_Error_def Write_def WriteHeader_def Header_Set_def sendHeader_def logEvent_def Let_def
        StatusInternalServerError_def StatusText_def bodyAllowedForStatus_def)
  then have k: "response (snd (writeSyncError err ?w)) = classify err" "fst (writeSyncError err ?w) = None"
    using assms(3,4) by simp_all
  have s: "serveStream flags upgrade (SyncFailed err # rest) w r = ended (writeSyncError err ?w)"
    using assms(1,2) by (simp add: serveStream_def Sync_def UpdatePresence_def Let_def)
  show "response (snd (serveStream flags upgrade (SyncFailed err # rest) w r)) = classify err"
    unfolding s by (simp add: k)
  show "fst (serveStream flags upgrade (SyncFailed err # rest) w r) = Returned"
    unfolding s by (simp add: k fst_ended)
qed

subsection \<open>Decoding into the struct and printing it\<close>

lemma fieldOf_update [simp]:
  "fieldOf name (jsr\<lparr>DeviceOTKCount := n\<rparr>) = fieldOf name jsr"
  "fieldOf name (jsr\<lparr>NextBatch := s\<rparr>) = fieldOf name jsr"
  "name \<noteq> ''account_data'' \<Longrightarrow> fieldOf name (jsr\<lparr>AccountData := v\<rparr>) = fieldOf name jsr"
  "name \<noteq> ''to_device'' \<Longrightarrow> fieldOf name (jsr\<lparr>ToDevice := v\<rparr>) = fieldOf name jsr"
  "name \<noteq> ''device_lists'' \<Longrightarrow> fieldOf name (jsr\<lparr>DeviceLists := v\<rparr>) = fieldOf name jsr"
  "name \<noteq> ''presence'' \<Longrightarrow> fieldOf name (jsr\<lparr>Presence' := v\<rparr>) = fieldOf name jsr"
  "name \<noteq> ''rooms'' \<Longrightarrow> fieldOf name (jsr\<lparr>Rooms := v\<rparr>) = fieldOf name jsr"
  "name \<noteq> ''groups'' \<Longrightarrow> fieldOf name (jsr\<lparr>Groups := v\<rparr>) = fieldOf name jsr"
  by (simp_all add: fieldOf_def)

lemma valueFields_cases:
  assumes "name \<in> set valueFields"
  obtains "name = ''account_data''" | "name = ''to_device''" | "name = ''device_lists''"
    | "name = ''presence''" | "name = ''rooms''" | "name = ''groups''"
  using assms unfolding valueFields_def by fastforce

lemma setField_same:
  assumes "name \<in> set valueFields" and "valueInterface parseFloat v = Some g"
  shows "\<exists>jsr'. setField parseFloat name v jsr = Inr jsr' \<and> fieldOf name jsr' = g"
  using assms(1)
  by (rule valueFields_cases) (simp_all add: setField_def setValue_def assms(2) fieldOf_def)

lemma setField_refused:
  assumes "name \<in> set valueFields" and "valueInterface parseFloat v = None"
  shows "setField parseFloat name v jsr = Inl UnmarshalTypeError"
  using assms(1)
  by (rule valueFields_cases) (simp_all add: setField_def setValue_def assms(2))

lemma setField_other:
  assumes "setField parseFloat name' v jsr = Inr jsr'" and "name' \<noteq> name"
  shows "fieldOf name jsr' = fieldOf name jsr"
proof -
  consider "name' = ''account_data''" | "name' = ''to_device''" | "name' = ''device_lists''"
    | "name' = ''presence''" | "name' = ''rooms''" | "name' = ''groups''"
    | "name' = ''device_one_time_keys_count''"
    | "name' \<notin> set [''account_data'', ''to_device'', ''device_lists'', ''presence'', ''rooms'',
         ''groups'', ''device_one_time_keys_count'']"
    by fastforce
  then show ?thesis
  proof cases
    case 7
    with assms(1) show ?thesis
      by (cases v) (auto simp: setField_def split: option.splits)
  next
    case 8
    with assms(1) show ?thesis
      by (cases v) (auto simp: setField_def)
  qed (use assms in \<open>auto simp: setField_def setValue_def split: option.splits\<close>)
qed

lemma setField_count:
  assumes "setField parseFloat name' v jsr = Inr jsr'" and "name' \<noteq> ''device_one_time_keys_count''"
  shows "DeviceOTKCount jsr' = DeviceOTKCount jsr"
proof -
  consider "name' = ''account_data''" | "name' = ''to_device''" | "name' = ''device_lists''"
    | "name' = ''presence''" | "name' = ''rooms''" | "name' = ''groups''"
    | "name' \<notin> set [''account_data'', ''to_device'', ''device_lists'', ''presence'', ''rooms'',
         ''groups'']"
    by fastforce
  then show ?thesis
  proof cases
    case 7
    with assms show ?thesis
      by (cases v) (auto simp: setField_def)
  qed (use assms in \<open>auto simp: setField_def setValue_def split: option.splits\<close>)
qed

lemma setMembers_error: "err \<noteq> None \<Longrightarrow> snd (setMembers parseFloat ms jsr err) \<noteq> None"
proof (induction ms arbitrary: jsr err)
  case Nil
  then show ?case by simp
next
  case (Cons kv ms)
  obtain k v where kv: "kv = (k, v)" by (cases kv)
  show ?case
  proof (cases "findField k")
    case None
    with Cons kv show ?thesis by simp
  next
    case (Some name)
    show ?thesis
    proof (cases "setField parseFloat name v jsr")
      case (Inl e)
      with Cons kv Some show ?thesis by simp
    next
      case (Inr jsr')
      with Cons kv Some show ?thesis by simp
    qed
  qed
qed

lemma setMembers_untouched:
  "\<forall>kv\<in>set ms. findField (fst kv) \<noteq> Some name \<Longrightarrow>
     fieldOf name (fst (setMembers parseFloat ms jsr err)) = fieldOf name jsr"
proof (induction ms arbitrary: jsr err)
  case Nil
  show ?case by simp
next
  case (Cons kv ms)
  obtain k v where kv: "kv = (k, v)" by (cases kv)
  show ?case
  proof (cases "findField k")
    case None
    with Cons kv show ?thesis by simp
  next
    case (Some name')
    with Cons.prems kv have ne: "name' \<noteq> name" by auto
    show ?thesis
    proof (cases "setField parseFloat name' v jsr")
      case (Inl e)
      with Cons kv Some show ?thesis by simp
    next
      case (Inr jsr')
      with Cons kv Some setField_other [OF Inr ne] show ?thesis by simp
    qed
  qed
qed

lemma setMembers_count:
  "\<forall>kv\<in>set ms. findField (fst kv) \<noteq> Some ''device_one_time_keys_count'' \<Longrightarrow>
     DeviceOTKCount (fst (setMembers parseFloat ms jsr err)) = DeviceOTKCount jsr"
proof (induction ms arbitrary: jsr err)
  case Nil
  show ?case by simp
next
  case (Cons kv ms)
  obtain k v where kv: "kv = (k, v)" by (cases kv)
  show ?case
  proof (cases "findField k")
    case None
    with Cons kv show ?thesis by simp
  next
    case (Some name')
    with Cons.prems kv have ne: "name' \<noteq> ''device_one_time_keys_count''" by auto
    show ?thesis
    proof (cases "setField parseFloat name' v jsr")
      case (Inl e)
      with Cons kv Some show ?thesis by simp
    next
      case (Inr jsr')
      with Cons kv Some setField_count [OF Inr ne] show ?thesis by simp
    qed
  qed
qed

lemma setMembers_append:
  "setMembers parseFloat (xs @ ys) jsr err =
     (case setMembers parseFloat xs jsr err of (j, e) \<Rightarrow> setMembers parseFloat ys j e)"
proof (induction xs arbitrary: jsr err)
  case Nil
  show ?case by simp
next
  case (Cons kv xs)
  obtain k v where kv: "kv = (k, v)" by (cases kv)
  show ?case
  proof (cases "findField k")
    case None
    with Cons kv show ?thesis by simp
  next
    case (Some name)
    with Cons kv show ?thesis
      by (cases "setField parseFloat name v jsr") simp_all
  qed
qed

text \<open>
  The last member of the payload that is stored in a field decides the field, when the
  decoding ends without error.
\<close>

lemma setMembers_last:
  assumes "findField key = Some name" and "name \<in> set valueFields"
    and "\<forall>kv\<in>set ms2. findField (fst kv) \<noteq> Some name"
    and "snd (setMembers parseFloat (ms1 @ (key, v) # ms2) jsr err) = None"
  shows "\<exists>g. valueInterface parseFloat v = Some g
     \<and> fieldOf name (fst (setMembers parseFloat (ms1 @ (key, v) # ms2) jsr err)) = g"
proof -
  obtain j e where 1: "setMembers parseFloat ms1 jsr err = (j, e)"
    by (cases "setMembers parseFloat ms1 jsr err")
  show ?thesis
  proof (cases "valueInterface parseFloat v")
    case None
    have "setMembers parseFloat (ms1 @ (key, v) # ms2) jsr err =
        setMembers parseFloat ms2 j (if e = None then Some UnmarshalTypeError else e)"
      using 1 assms(1) setField_refused [OF assms(2) None] by (simp add: setMembers_append)
    moreover have "snd (setMembers parseFloat ms2 j (if e = None then Some UnmarshalTypeError else e)) \<noteq> None"
      by (rule setMembers_error) simp
    ultimately show ?thesis
      using assms(4) by simp
  next
    case (Some g)
    obtain j' where 2: "setField parseFloat name v j = Inr j'" and 3: "fieldOf name j' = g"
      using setField_same [OF assms(2) Some] by blast
    have "setMembers parseFloat (ms1 @ (key, v) # ms2) jsr err = setMembers parseFloat ms2 j' e"
      using 1 2 assms(1) by (simp add: setMembers_append)
    then show ?thesis
      using setMembers_untouched [OF assms(3), of parseFloat j' e] 3 Some by simp
  qed
qed

lemma setMembers_last_count:
  assumes "findField key = Some ''device_one_time_keys_count''"
    and "\<forall>kv\<in>set ms2. findField (fst kv) \<noteq> Some ''device_one_time_keys_count''"
    and "snd (setMembers parseFloat (ms1 @ (key, JNumber lit) # ms2) jsr err) = None"
  shows "\<exists>n. parseInt lit = Some n
     \<and> DeviceOTKCount (fst (setMembers parseFloat (ms1 @ (key, JNumber lit) # ms2) jsr err)) = n"
proof -
  obtain j e where 1: "setMembers parseFloat ms1 jsr err = (j, e)"
    by (cases "setMembers parseFloat ms1 jsr err")
  show ?thesis
  proof (cases "parseInt lit")
    case None
    then have "setField parseFloat ''device_one_time_keys_count'' (JNumber lit) j = Inl UnmarshalTypeError"
      by (simp add: setField_def)
    then have "setMembers parseFloat (ms1 @ (key, JNumber lit) # ms2) jsr err =
        setMembers parseFloat ms2 j (if e = None then Some UnmarshalTypeError else e)"
      using 1 assms(1) by (simp add: setMembers_append)
    moreover have "snd (setMembers parseFloat ms2 j (if e = None then Some UnmarshalTypeError else e)) \<noteq> None"
      by (rule setMembers_error) simp
    ultimately show ?thesis
      using assms(3) by simp
  next
    case (Some n)
    then have 2: "setField parseFloat ''device_one_time_keys_count'' (JNumber lit) j
        = Inr (j\<lparr>DeviceOTKCount := n\<rparr>)"
      by (simp add: setField_def)
    have "setMembers parseFloat (ms1 @ (key, JNumber lit) # ms2) jsr err
        = setMembers parseFloat ms2 (j\<lparr>DeviceOTKCount := n\<rparr>) e"
      using 1 2 assms(1) by (simp add: setMembers_append)
    then show ?thesis
      using setMembers_count [OF assms(2), of parseFloat "j\<lparr>DeviceOTKCount := n\<rparr>" e] Some by simp
  qed
qed

lemma setMembers_known:
  "setMembers parseFloat (filter known ms) jsr err = setMembers parseFloat ms jsr err"
proof (induction ms arbitrary: jsr err)
  case Nil
  show ?case by simp
next
  case (Cons kv ms)
  obtain k v where kv: "kv = (k, v)" by (cases kv)
  show ?case
  proof (cases "findField k")
    case None
    with Cons kv show ?thesis by (simp add: known_def)
  next
    case (Some name)
    then have "known (k, v)" by (simp add: known_def)
    with Cons kv Some show ?thesis
      by (cases "setField parseFloat name v jsr") simp_all
  qed
qed

lemma Marshal_members:
  "Marshal ff jsr =
     ''{'' @ member ''account_data'' (encodeValue ff (AccountData jsr)) @
     '','' @ member ''to_device'' (encodeValue ff (ToDevice jsr)) @
     '','' @ member ''device_lists'' (encodeValue ff (DeviceLists jsr)) @
     '','' @ member ''presence'' (encodeValue ff (Presence' jsr)) @
     '','' @ member ''rooms'' (encodeValue ff (Rooms jsr)) @
     '','' @ member ''groups'' (encodeValue ff (Groups jsr)) @
     '','' @ member ''device_one_time_keys_count'' (showInt (DeviceOTKCount jsr)) @
     '','' @ member ''next_batch'' (encodeString (NextBatch jsr)) @ ''}''"
  by (simp add: Marshal_def member_def)

lemma Marshal_field:
  assumes "name \<in> set valueFields"
  shows "\<exists>pre post. Marshal ff jsr = pre @ member name (encodeValue ff (fieldOf name jsr)) @ post"
  using assms
proof (rule valueFields_cases)
  assume n: "name = ''account_data''"
  have f: "fieldOf ''account_data'' jsr = AccountData jsr"
    by (simp add: fieldOf_def)
  have "Marshal ff jsr =
      (''{'') @ member ''account_data'' (encodeValue ff (AccountData jsr)) @ ('','' @ member ''to_device'' (encodeValue ff (ToDevice jsr)) @ '','' @ member ''device_lists'' (encodeValue ff (DeviceLists jsr)) @ '','' @ member ''presence'' (encodeValue ff (Presence' jsr)) @ '','' @ member ''rooms'' (encodeValue ff (Rooms jsr)) @ '','' @ member ''groups'' (encodeValue ff (Groups jsr)) @ '','' @ member ''device_one_time_keys_count'' (showInt (DeviceOTKCount jsr)) @ '','' @ member ''next_batch'' (encodeString (NextBatch jsr)) @ ''}'')"
    unfolding Marshal_members by (simp only: append_assoc)
  then show ?thesis
    unfolding n f by (intro exI)
next
  assume n: "name = ''to_device''"
  have f: "fieldOf ''to_device'' jsr = ToDevice jsr"
    by (simp add: fieldOf_def)
  have "Marshal ff jsr =
      (''{'' @ member ''account_data'' (encodeValue ff (AccountData jsr)) @ '','') @ member ''to_device'' (encodeValue ff (ToDevice jsr)) @ ('','' @ member ''device_lists'' (encodeValue ff (DeviceLists jsr)) @ '','' @ member ''presence'' (encodeValue ff (Presence' jsr)) @ '','' @ member ''rooms'' (encodeValue ff (Rooms jsr)) @ '','' @ member ''groups'' (encodeValue ff (Groups jsr)) @ '','' @ member ''device_one_time_keys_count'' (showInt (DeviceOTKCount jsr)) @ '','' @ member ''next_batch'' (encodeString (NextBatch jsr)) @ ''}'')"
    unfolding Marshal_members by (simp only: append_assoc)
  then show ?thesis
    unfolding n f by (intro exI)
next
  assume n: "name = ''device_lists''"
  have f: "fieldOf ''device_lists'' jsr = DeviceLists jsr"
    by (simp add: fieldOf_def)
  have "Marshal ff jsr =
      (''{'' @ member ''account_data'' (encodeValue ff (AccountData jsr)) @ '','' @ member ''to_device'' (encodeValue ff (ToDevice jsr)) @ '','') @ member ''device_lists'' (encodeValue ff (DeviceLists jsr)) @ ('','' @ member ''presence'' (encodeValue ff (Presence' jsr)) @ '','' @ member ''rooms'' (encodeValue ff (Rooms jsr)) @ '','' @ member ''groups'' (encodeValue ff (Groups jsr)) @ '','' @ member ''device_one_time_keys_count'' (showInt (DeviceOTKCount jsr)) @ '','' @ member ''next_batch'' (encodeString (NextBatch jsr)) @ ''}'')"
    unfolding Marshal_members by (simp only: append_assoc)
  then show ?thesis
    unfolding n f by (intro exI)
next
  assume n: "name = ''presence''"
  have f: "fieldOf ''presence'' jsr = Presence' jsr"
    by (simp add: fieldOf_def)
  have "Marshal ff jsr =
      (''{'' @ member ''account_data'' (encodeValue ff (AccountData jsr)) @ '','' @ member ''to_device'' (encodeValue ff (ToDevice jsr)) @ '','' @ member ''device_lists'' (encodeValue ff (DeviceLists jsr)) @ '','') @ member ''presence'' (encodeValue ff (Presence' jsr)) @ ('','' @ member ''rooms'' (encodeValue ff (Rooms jsr)) @ '','' @ member ''groups'' (encodeValue ff (Groups jsr)) @ '','' @ member ''device_one_time_keys_count'' (showInt (DeviceOTKCount jsr)) @ '','' @ member ''next_batch'' (encodeString (NextBatch jsr)) @ ''}'')"
    unfolding Marshal_members by (simp only: append_assoc)
  then show ?thesis
    unfolding n f by (intro exI)
next
  assume n: "name = ''rooms''"
  have f: "fieldOf ''rooms'' jsr = Rooms jsr"
    by (simp add: fieldOf_def)
  have "Marshal ff jsr =
      (''{'' @ member ''account_data'' (encodeValue ff (AccountData jsr)) @ '','' @ member ''to_device'' (encodeValue ff (ToDevice jsr)) @ '','' @ member ''device_lists'' (encodeValue ff (DeviceLists jsr)) @ '','' @ member ''presence'' (encodeValue ff (Presence' jsr)) @ '','') @ member ''rooms'' (encodeValue ff (Rooms jsr)) @ ('','' @ member ''groups'' (encodeValue ff (Groups jsr)) @ '','' @ member ''device_one_time_keys_count'' (showInt (DeviceOTKCount jsr)) @ '','' @ member ''next_batch'' (encodeString (NextBatch jsr)) @ ''}'')"
    unfolding Marshal_members by (simp only: append_assoc)
  then show ?thesis
    unfolding n f by (intro exI)
next
  assume n: "name = ''groups''"
  have f: "fieldOf ''groups'' jsr = Groups jsr"
    by (simp add: fieldOf_def)
  have "Marshal ff jsr =
      (''{'' @ member ''account_data'' (encodeValue ff (AccountData jsr)) @ '','' @ member ''to_device'' (encodeValue ff (ToDevice jsr)) @ '','' @ member ''device_lists'' (encodeValue ff (DeviceLists jsr)) @ '','' @ member ''presence'' (encodeValue ff (Presence' jsr)) @ '','' @ member ''rooms'' (encodeValue ff (Rooms jsr)) @ '','') @ member ''groups'' (encodeValue ff (Groups jsr)) @ ('','' @ member ''device_one_time_keys_count'' (showInt (DeviceOTKCount jsr)) @ '','' @ member ''next_batch'' (encodeString (NextBatch jsr)) @ ''}'')"
    unfolding Marshal_members by (simp only: append_assoc)
  then show ?thesis
    unfolding n f by (intro exI)
qed

lemma Marshal_count:
  "\<exists>pre post. Marshal ff jsr =
     pre @ member ''device_one_time_keys_count'' (showInt (DeviceOTKCount jsr)) @ post"
proof -
  have "Marshal ff jsr =
      (''{'' @ member ''account_data'' (encodeValue ff (AccountData jsr)) @ '','' @ member ''to_device'' (encodeValue ff (ToDevice jsr)) @ '','' @ member ''device_lists'' (encodeValue ff (DeviceLists jsr)) @ '','' @ member ''presence'' (encodeValue ff (Presence' jsr)) @ '','' @ member ''rooms'' (encodeValue ff (Rooms jsr)) @ '','' @ member ''groups'' (encodeValue ff (Groups jsr)) @ '','') @ member ''device_one_time_keys_count'' (showInt (DeviceOTKCount jsr)) @ ('','' @ member ''next_batch'' (encodeString (NextBatch jsr)) @ ''}'')"
    unfolding Marshal_members by (simp only: append_assoc)
  then show ?thesis
    by (intro exI)
qed

lemma PopNextBatch_decoded:
  assumes "decode inp = Some (JObject ms)" and "snd (PopNextBatch pf ff inp) = None"
  shows "fst (PopNextBatch pf ff inp) =
      Marshal ff ((fst (setMembers pf ms zeroSyncResponse None))\<lparr>NextBatch := []\<rparr>)"
    and "snd (setMembers pf ms zeroSyncResponse None) = None"
  using assms by (auto simp: PopNextBatch_def Unmarshal_def split: prod.splits option.splits)

lemma decode_payload4:
  \<open>decode payload4 = Some (JObject ([(''next_batch'', JString ''s72'')] @
      (''Rooms'', JObject [(''join'', JObject [])]) #
      [(''device_one_time_keys_count'', JNumber ''7''), (''org.example.custom'', JBool True)]))\<close>
  by code_simp

lemma decode_payload5:
  \<open>decode payload5 = Some (JObject (filter known ([(''next_batch'', JString ''s72'')] @
      (''Rooms'', JObject [(''join'', JObject [])]) #
      [(''device_one_time_keys_count'', JNumber ''7''), (''org.example.custom'', JBool True)])))\<close>
  by code_simp

lemma PopNextBatch_payload4:
  \<open>PopNextBatch Some id payload4 =
     (''{"account_data":null,"to_device":null,"device_lists":null,"presence":null,"rooms":{"join":{}},"groups":null,"device_one_time_keys_count":7,"next_batch":""}'',
      None)\<close>
  by code_simp

subsection \<open>The bound on the recursion of the parser\<close>

text \<open>
  More steps than \<open>decode\<close> and the parser allow never change a result: the bounds
  are not reached.
\<close>

lemma length_skipSpace: "length (skipSpace s) \<le> length s"
  by (simp add: skipSpace_def length_dropWhile_le)

lemma skipSpace_Cons: "skipSpace s = c # r \<Longrightarrow> length r < length s"
  using length_skipSpace [of s] by simp

lemma prepend_Some: "prepend p x = Some (str, rest) \<Longrightarrow> \<exists>t. x = Some (t, rest)"
  by (cases x) (auto simp: prepend_def)

lemma hex4_rest: "hex4 r = Some (u, r1) \<Longrightarrow> length r1 \<le> length r"
  by (induction r rule: hex4.induct) (auto split: option.splits)

lemma surrogate_rest: "surrogate u r = (rune, r2) \<Longrightarrow> length r2 \<le> length r"
  by (auto simp: surrogate_def split: if_splits option.splits dest!: hex4_rest)

lemma runeLen_pos: "runeLen s \<noteq> 0 \<Longrightarrow> length (drop (runeLen s) s) < length s"
  by (cases s) auto

lemma scanString_rest: "scanString n s = Some (str, rest) \<Longrightarrow> length rest \<le> length s"
proof (induction n s arbitrary: str rest rule: scanString.induct)
  case (1 s)
  then show ?case by simp
next
  case (2 n)
  then show ?case by simp
next
  case (3 n c cs)
  show ?case
  proof (cases "c = CHR 0x22")
    case True
    with "3.prems" show ?thesis by simp
  next
    case q: False
    show ?thesis
    proof (cases "c = CHR 0x5C")
      case False
      have ctl: "\<not> (of_char c :: nat) < 0x20"
        using "3.prems" q False by (auto split: if_splits)
      show ?thesis
      proof (cases "runeLen (c # cs) = 0")
        case True
        with q False ctl "3.prems" obtain t where "scanString n cs = Some (t, rest)"
          by (auto dest: prepend_Some)
        with "3.IH"(3) [OF q False ctl True] show ?thesis
          by simp
      next
        case r: False
        with q False ctl "3.prems" obtain t where
          "scanString n (drop (runeLen (c # cs)) (c # cs)) = Some (t, rest)"
          by (auto dest: prepend_Some)
        with "3.IH"(4) [OF q False ctl r] runeLen_pos [OF r] show ?thesis
          by simp
      qed
    next
      case True
      then obtain e r where cs: "cs = e # r"
        using "3.prems" q by (cases cs) auto
      show ?thesis
      proof (cases "e = CHR ''u''")
        case u: True
        then obtain v r1 where h: "hex4 r = Some (v, r1)"
          using "3.prems" q True cs by (cases "hex4 r") auto
        obtain rune r2 where s: "surrogate v r1 = (rune, r2)"
          by (cases "surrogate v r1")
        with "3.prems" q True cs u h obtain t where t: "scanString n r2 = Some (t, rest)"
          by (auto dest: prepend_Some)
        from "3.IH"(1) [OF q True cs u h refl s [symmetric] t]
        have "length rest \<le> length r2" .
        with hex4_rest [OF h] surrogate_rest [OF s] cs show ?thesis
          by simp
      next
        case nu: False
        then obtain ch where ch: "unescape e = Some ch"
          using "3.prems" q True cs by (cases "unescape e") auto
        with "3.prems" q True cs nu obtain t where t: "scanString n r = Some (t, rest)"
          by (auto dest: prepend_Some)
        from "3.IH"(2) [OF q True cs nu ch t] cs show ?thesis
          by simp
      qed
    qed
  qed
qed

lemma digits_rest: "digits s = Some (ds, r) \<Longrightarrow> length r \<le> length s"
  by (auto simp: digits_def Let_def length_dropWhile_le split: if_splits)

lemma scanNumber_rest: "scanNumber s = Some (lit, rest) \<Longrightarrow> length rest \<le> length s"
  by (auto simp: scanNumber_def Let_def split: if_splits option.splits prod.splits dest!: digits_rest)


lemma parse_rest:
  "(\<forall>d s v r. parseValue n d s = Some (v, r) \<longrightarrow> length r \<le> length s)
   \<and> (\<forall>d s vs r. parseElements n d s = Some (vs, r) \<longrightarrow> length r \<le> length s)
   \<and> (\<forall>d s ms r. parseMembers n d s = Some (ms, r) \<longrightarrow> length r \<le> length s)"
proof (induction n)
  case 0
  show ?case by simp
next
  case (Suc n)
  then have ihv: "\<And>d s v r. parseValue n d s = Some (v, r) \<Longrightarrow> length r \<le> length s"
    and ihe: "\<And>d s vs r. parseElements n d s = Some (vs, r) \<Longrightarrow> length r \<le> length s"
    and ihm: "\<And>d s ms r. parseMembers n d s = Some (ms, r) \<Longrightarrow> length r \<le> length s"
    by blast+
  have v: "length r \<le> length s" if "parseValue (Suc n) d s = Some (v, r)" for d s v r
  proof (cases "skipSpace s")
    case Nil
    with that show ?thesis by simp
  next
    case (Cons c r0)
    have l: "length r0 < length s"
      using Cons by (rule skipSpace_Cons)
    have l': "length (skipSpace r0) \<le> length r0"
      by (rule length_skipSpace)
    have n: "length r \<le> length (c # r0)" if "scanNumber (c # r0) = Some (lit, r)" for lit
      using that by (rule scanNumber_rest)
    from that Cons l l' n show ?thesis
      by (auto split: if_splits dest!: scanString_rest ihe ihm)
  qed
  have e: "length r \<le> length s" if "parseElements (Suc n) d s = Some (vs, r)" for d s vs r
  proof -
    from that obtain v r0 where 1: "parseValue n d s = Some (v, r0)"
      by (cases "parseValue n d s") auto
    then have 2: "length r0 \<le> length s" by (rule ihv)
    from that 1 obtain c r1 where 3: "skipSpace r0 = c # r1"
      by (cases "skipSpace r0") auto
    then have 4: "length r1 < length r0" by (rule skipSpace_Cons)
    from that 1 3 2 4 show ?thesis
      by (auto split: if_splits dest!: ihe)
  qed
  have m: "length r \<le> length s" if "parseMembers (Suc n) d s = Some (ms, r)" for d s ms r
  proof -
    from that obtain q r0 where 1: "skipSpace s = q # r0" "q = CHR 0x22"
      by (cases "skipSpace s") (auto split: if_splits)
    then have l1: "length r0 < length s" using skipSpace_Cons by blast
    from that 1 obtain key r1 where 2: "scanString (Suc (length r0)) r0 = Some (key, r1)"
      by (cases "scanString (Suc (length r0)) r0") auto
    then have l2: "length r1 \<le> length r0" by (rule scanString_rest)
    from that 1 2 obtain c r2 where 3: "skipSpace r1 = c # r2" "c = CHR '':''"
      by (cases "skipSpace r1") (auto split: if_splits)
    then have l3: "length r2 < length r1" using skipSpace_Cons by blast
    from that 1 2 3 obtain v r3 where 4: "parseValue n d r2 = Some (v, r3)"
      by (cases "parseValue n d r2") auto
    then have l4: "length r3 \<le> length r2" by (rule ihv)
    from that 1 2 3 4 obtain x r4 where 5: "skipSpace r3 = x # r4"
      by (cases "skipSpace r3") auto
    then have l5: "length r4 < length r3" by (rule skipSpace_Cons)
    from that 1 2 3 4 5 l1 l2 l3 l4 l5 show ?thesis
      by (auto split: if_splits dest!: ihm)
  qed
  from v e m show ?case by blast
qed


lemma parseValue_rest: "parseValue n d s = Some (v, r) \<Longrightarrow> length r \<le> length s"
  using parse_rest by blast

lemma parseValue_step:
  assumes ihe: "\<And>d s m. 2 * length s + 2 \<le> n \<Longrightarrow> 2 * length s + 2 \<le> m \<Longrightarrow> parseElements n d s = parseElements m d s"
    and ihm: "\<And>d s m. 2 * length s \<le> n \<Longrightarrow> 2 * length s \<le> m \<Longrightarrow> parseMembers n d s = parseMembers m d s"
    and b: "2 * length s + 1 \<le> Suc n" "2 * length s + 1 \<le> m"
  shows "parseValue (Suc n) d s = parseValue m d s"
proof -
  from b obtain m' where m: "m = Suc m'" by (cases m) auto
  show ?thesis
  proof (cases "skipSpace s")
    case Nil
    then show ?thesis by (simp only: m parseValue.simps list.case)
  next
    case (Cons c r0)
    then have l: "length r0 < length s" by (rule skipSpace_Cons)
    have 1: "parseMembers n (Suc d) r0 = parseMembers m' (Suc d) r0"
      using l b m by (intro ihm) simp_all
    have 2: "parseElements n (Suc d) r0 = parseElements m' (Suc d) r0"
      using l b m by (intro ihe) simp_all
    show ?thesis by (simp only: m parseValue.simps Cons list.case 1 2)
  qed
qed

lemma parseElements_step:
  assumes ihv: "\<And>d s m. 2 * length s + 1 \<le> n \<Longrightarrow> 2 * length s + 1 \<le> m \<Longrightarrow> parseValue n d s = parseValue m d s"
    and ihe: "\<And>d s m. 2 * length s + 2 \<le> n \<Longrightarrow> 2 * length s + 2 \<le> m \<Longrightarrow> parseElements n d s = parseElements m d s"
    and b: "2 * length s + 2 \<le> Suc n" "2 * length s + 2 \<le> m"
  shows "parseElements (Suc n) d s = parseElements m d s"
proof -
  from b obtain m' where m: "m = Suc m'" by (cases m) auto
  have 1: "parseValue n d s = parseValue m' d s"
    using b m by (intro ihv) simp_all
  show ?thesis
  proof (cases "parseValue m' d s")
    case None
    show ?thesis by (simp only: m parseElements.simps 1 None option.case)
  next
    case (Some a)
    obtain v r where a: "a = (v, r)" by (cases a)
    have l: "length r \<le> length s"
      using Some a by (auto dest: parseValue_rest)
    show ?thesis
    proof (cases "skipSpace r")
      case Nil
      show ?thesis
        by (simp only: m parseElements.simps 1 Some a option.case prod.case Nil list.case)
    next
      case (Cons c r1)
      then have "length r1 < length r" by (rule skipSpace_Cons)
      then have 2: "parseElements n d r1 = parseElements m' d r1"
        using l b m by (intro ihe) simp_all
      show ?thesis
        by (simp only: m parseElements.simps 1 Some a option.case prod.case Cons list.case 2)
    qed
  qed
qed

lemma parseMembers_step:
  assumes ihv: "\<And>d s m. 2 * length s + 1 \<le> n \<Longrightarrow> 2 * length s + 1 \<le> m \<Longrightarrow> parseValue n d s = parseValue m d s"
    and ihm: "\<And>d s m. 2 * length s \<le> n \<Longrightarrow> 2 * length s \<le> m \<Longrightarrow> parseMembers n d s = parseMembers m d s"
    and b: "2 * length s \<le> Suc n" "2 * length s \<le> m"
  shows "parseMembers (Suc n) d s = parseMembers m d s"
proof (cases "skipSpace s")
  case Nil
  then show ?thesis by (cases m) (simp_all only: parseMembers.simps list.case)
next
  case (Cons q r0)
  then have l0: "length r0 < length s" by (rule skipSpace_Cons)
  with b obtain m' where m: "m = Suc m'" by (cases m) auto
  show ?thesis
  proof (cases "scanString (Suc (length r0)) r0")
    case None
    show ?thesis by (simp only: m parseMembers.simps Cons list.case None option.case)
  next
    case (Some a)
    obtain key r1 where a: "a = (key, r1)" by (cases a)
    have l1: "length r1 \<le> length r0"
      using Some a by (auto dest: scanString_rest)
    show ?thesis
    proof (cases "skipSpace r1")
      case Nil
      show ?thesis
        by (simp only: m parseMembers.simps Cons list.case Some a option.case prod.case Nil)
    next
      case c2: (Cons c r2)
      then have l2: "length r2 < length r1" by (rule skipSpace_Cons)
      have 1: "parseValue n d r2 = parseValue m' d r2"
        using l0 l1 l2 b m by (intro ihv) simp_all
      show ?thesis
      proof (cases "parseValue m' d r2")
        case None
        show ?thesis
          by (simp only: m parseMembers.simps Cons list.case Some a option.case prod.case c2 1 None)
      next
        case s3: (Some a3)
        obtain v r3 where a3: "a3 = (v, r3)" by (cases a3)
        have l3: "length r3 \<le> length r2"
          using s3 a3 by (auto dest: parseValue_rest)
        show ?thesis
        proof (cases "skipSpace r3")
          case Nil
          show ?thesis
            by (simp only: m parseMembers.simps Cons list.case Some a option.case prod.case c2 1
                s3 a3 Nil)
        next
          case c4: (Cons x r4)
          then have "length r4 < length r3" by (rule skipSpace_Cons)
          then have 2: "parseMembers n d r4 = parseMembers m' d r4"
            using l0 l1 l2 l3 b m by (intro ihm) simp_all
          show ?thesis
            by (simp only: m parseMembers.simps Cons list.case Some a option.case prod.case c2 1
                s3 a3 c4 2)
        qed
      qed
    qed
  qed
qed

lemma parse_fuel:
  "(\<forall>d s m. 2 * length s + 1 \<le> n \<longrightarrow> 2 * length s + 1 \<le> m \<longrightarrow> parseValue n d s = parseValue m d s)
   \<and> (\<forall>d s m. 2 * length s + 2 \<le> n \<longrightarrow> 2 * length s + 2 \<le> m \<longrightarrow> parseElements n d s = parseElements m d s)
   \<and> (\<forall>d s m. 2 * length s \<le> n \<longrightarrow> 2 * length s \<le> m \<longrightarrow> parseMembers n d s = parseMembers m d s)"
proof (induction n)
  case 0
  show ?case
  proof (intro conjI allI impI)
    fix d :: nat and s :: string and m :: nat
    assume "2 * length s \<le> 0"
    then have "s = []" by simp
    then show "parseMembers 0 d s = parseMembers m d s"
      by (cases m) (simp_all add: skipSpace_def)
  qed simp_all
next
  case (Suc n)
  note ihv = Suc [THEN conjunct1, rule_format]
  note ihe = Suc [THEN conjunct2, THEN conjunct1, rule_format]
  note ihm = Suc [THEN conjunct2, THEN conjunct2, rule_format]
  show ?case
  proof (intro conjI allI impI)
    fix d :: nat and s :: string and m :: nat
    assume "2 * length s + 1 \<le> Suc n" "2 * length s + 1 \<le> m"
    with ihe ihm show "parseValue (Suc n) d s = parseValue m d s"
      by (rule parseValue_step)
  next
    fix d :: nat and s :: string and m :: nat
    assume "2 * length s + 2 \<le> Suc n" "2 * length s + 2 \<le> m"
    with ihv ihe show "parseElements (Suc n) d s = parseElements m d s"
      by (rule parseElements_step)
  next
    fix d :: nat and s :: string and m :: nat
    assume "2 * length s \<le> Suc n" "2 * length s \<le> m"
    with ihv ihm show "parseMembers (Suc n) d s = parseMembers m d s"
      by (rule parseMembers_step)
  qed
qed

lemma parseValue_fuel:
  assumes "Suc (2 * length s) \<le> n"
  shows "parseValue n d s = parseValue (Suc (2 * length s)) d s"
  by (rule parse_fuel [THEN conjunct1, rule_format]) (use assms in simp_all)

lemma scanString_fuel:
  "length s < n \<Longrightarrow> length s < m \<Longrightarrow> scanString n s = scanString m s"
proof (induction n s arbitrary: m rule: scanString.induct)
  case (1 s)
  then show ?case by simp
next
  case (2 n)
  then show ?case by (cases m) simp_all
next
  case (3 n c cs)
  from "3.prems" obtain m' where m: "m = Suc m'" by (cases m) auto
  show ?case
  proof (cases "c = CHR 0x22")
    case True
    then show ?thesis by (simp add: m)
  next
    case q: False
    show ?thesis
    proof (cases "c = CHR 0x5C")
      case False
      show ?thesis
      proof (cases "(of_char c :: nat) < 0x20")
        case True
        with q False show ?thesis by (simp add: m)
      next
        case ctl: False
        show ?thesis
        proof (cases "runeLen (c # cs) = 0")
          case True
          from "3.IH"(3) [OF q False ctl True, of m'] "3.prems" m have "scanString n cs = scanString m' cs"
            by simp
          with q False ctl True show ?thesis by (simp add: m)
        next
          case r: False
          have "length (drop (runeLen (c # cs)) (c # cs)) < length (c # cs)"
            using r by (rule runeLen_pos)
          with "3.IH"(4) [OF q False ctl r, of m'] "3.prems" m
          have "scanString n (drop (runeLen (c # cs)) (c # cs)) = scanString m' (drop (runeLen (c # cs)) (c # cs))"
            by simp
          with q False ctl r show ?thesis by (simp only: m scanString.simps if_False)
        qed
      qed
    next
      case True
      show ?thesis
      proof (cases cs)
        case Nil
        with q True show ?thesis by (simp add: m)
      next
        case (Cons e r)
        show ?thesis
        proof (cases "e = CHR ''u''")
          case u: True
          show ?thesis
          proof (cases "hex4 r")
            case None
            with q True Cons u show ?thesis by (simp add: m)
          next
            case (Some a)
            obtain v r1 where a: "a = (v, r1)" by (cases a)
            obtain rune r2 where s: "surrogate v r1 = (rune, r2)"
              by (cases "surrogate v r1")
            have "length r2 \<le> length r"
              using Some a s hex4_rest [of r v r1] surrogate_rest [of v r1 rune r2] by simp
            with "3.IH"(1) [OF q True Cons u Some a [symmetric] s [symmetric], of m'] "3.prems" m Cons
            have "scanString n r2 = scanString m' r2"
              by simp
            with q True Cons u Some a s show ?thesis by (simp add: m)
          qed
        next
          case nu: False
          show ?thesis
          proof (cases "unescape e")
            case None
            with q True Cons nu show ?thesis by (simp add: m)
          next
            case (Some ch)
            from "3.IH"(2) [OF q True Cons nu Some, of m'] "3.prems" m Cons
            have "scanString n r = scanString m' r"
              by simp
            with q True Cons nu Some show ?thesis by (simp add: m)
          qed
        qed
      qed
    qed
  qed
qed

lemma escapeString_fuel:
  "length s \<le> n \<Longrightarrow> length s \<le> m \<Longrightarrow> escapeString n s = escapeString m s"
proof (induction n s arbitrary: m rule: escapeString.induct)
  case (1 s)
  then show ?case by (cases m) simp_all
next
  case (2 n)
  then show ?case by (cases m) simp_all
next
  case (3 n c cs)
  from "3.prems" obtain m' where m: "m = Suc m'" by (cases m) auto
  show ?case
  proof (cases "(of_char c :: nat) < 0x80")
    case True
    from "3.IH"(1) [OF True, of m'] "3.prems" m have "escapeString n cs = escapeString m' cs"
      by simp
    with True show ?thesis by (simp add: m)
  next
    case a: False
    show ?thesis
    proof (cases "runeLen (c # cs) = 0")
      case True
      from "3.IH"(2) [OF a True, of m'] "3.prems" m have "escapeString n cs = escapeString m' cs"
        by simp
      then show ?thesis
        by (simp only: m escapeString.simps if_not_P [OF a] if_P [OF True])
    next
      case r: False
      show ?thesis
      proof (cases "take 3 (c # cs) = [CHR 0xE2, CHR 0x80, CHR 0xA8]")
        case True
        from "3.IH"(3) [OF a r True, of m'] "3.prems" m
        have "escapeString n (drop 2 cs) = escapeString m' (drop 2 cs)"
          by simp
        then show ?thesis
          by (simp only: m escapeString.simps if_not_P [OF a] if_not_P [OF r] if_P [OF True])
      next
        case l: False
        show ?thesis
        proof (cases "take 3 (c # cs) = [CHR 0xE2, CHR 0x80, CHR 0xA9]")
          case True
          from "3.IH"(4) [OF a r l True, of m'] "3.prems" m
          have "escapeString n (drop 2 cs) = escapeString m' (drop 2 cs)"
            by simp
          then show ?thesis
            by (simp only: m escapeString.simps if_not_P [OF a] if_not_P [OF r] if_not_P [OF l]
                if_P [OF True])
        next
          case p: False
          have "length (drop (runeLen (c # cs)) (c # cs)) < length (c # cs)"
            using r by (rule runeLen_pos)
          with "3.IH"(5) [OF a r l p, of m'] "3.prems" m
          have "escapeString n (drop (runeLen (c # cs)) (c # cs))
              = escapeString m' (drop (runeLen (c # cs)) (c # cs))"
            by simp
          then show ?thesis
            by (simp only: m escapeString.simps if_not_P [OF a] if_not_P [OF r] if_not_P [OF l]
                if_not_P [OF p])
        qed
      qed
    qed
  qed
qed

section \<open>Claims on credential resolution\<close>

text \<open>
  C10. When the authorization header has at least 7 bytes and begins with
  \<^verbatim>\<open>"Bearer "\<close>, the resolved credential is the entire header value, prefix included:
  the slice \<^verbatim>\<open>accessToken[0:6]\<close> has 6 bytes and never equals the 7-byte literal, so the
  branch that strips the prefix is never taken.
\<close>

theorem bearer_prefix_is_kept:
  "Get (Header req) ''Authorization'' = h \<Longrightarrow> 7 \<le> length h \<Longrightarrow> take 7 h = ''Bearer '' \<Longrightarrow>
     resolveAccessToken req = Inr h \<and> slice h 0 6 \<noteq> Inr ''Bearer ''"
  using resolveAccessToken_header [of req] slice_0_6_not_Bearer [of h] by simp

theorem bearer_prefix_is_kept_witness:
  "resolveAccessToken (mkRequest ''GET'' [(''Authorization'', ''Bearer secret'')] []) = Inr ''Bearer secret''"
  using bearer_prefix_is_kept [of "mkRequest ''GET'' [(''Authorization'', ''Bearer secret'')] []" "''Bearer secret''"]
  by simp

text \<open>
  C9. The claim is that credential resolution does not fault on a non-empty
  authorization header shorter than 6 bytes. On the header \<^verbatim>\<open>abc\<close> the slice
  \<^verbatim>\<open>accessToken[0:6]\<close> is out of bounds, and both handlers panic before any call to the
  upstream.
\<close>

theorem short_authorization_header_panics:
  "resolveAccessToken (mkRequest ''GET'' [(''Authorization'', ''abc'')] []) = Inl (SliceBoundsOutOfRange 6 3)
   \<and> serveStream flags upgradeOk replies w (mkRequest ''GET'' [(''Authorization'', ''abc'')] [])
       = (Panicked (SliceBoundsOutOfRange 6 3), w)
   \<and> serveEventSource flags parseFloat formatFloat True True connectionExists replies w
         (mkRequest ''GET'' [(''Authorization'', ''abc'')] [])
       = (Panicked (SliceBoundsOutOfRange 6 3), w)"
proof -
  let ?req = "mkRequest ''GET'' [(''Authorization'', ''abc'')] []"
  have r: "resolveAccessToken ?req = Inl (SliceBoundsOutOfRange 6 3)"
    by (simp add: resolveAccessToken_def slice_def)
  have m: "Method ?req = ''GET''"
    by (simp add: mkRequest_def)
  show ?thesis
    by (simp add: r m serveStream_def serveEventSource_def)
qed

text \<open>
  C4. The claim is that a request with a non-empty authorization header and a distinct
  \<^verbatim>\<open>access_token\<close> parameter resolves to the credential of the header. With the
  5-byte header \<^verbatim>\<open>token\<close> and the parameter \<^verbatim>\<open>secret\<close> neither handler resolves a
  credential: the slice \<^verbatim>\<open>accessToken[0:6]\<close> panics, and no request is sent upstream.
  (For a header of 6 bytes or more the header is the credential, and for an empty header
  the parameter is: \<open>resolveAccessToken_header\<close>, \<open>resolveAccessToken_parameter\<close>.)
\<close>

theorem short_header_resolves_no_credential:
  "serveStream flags upgradeOk replies w
      (mkRequest ''GET'' [(''Authorization'', ''token'')] [(''access_token'', ''secret'')])
     = (Panicked (SliceBoundsOutOfRange 6 5), w)
   \<and> serveEventSource flags parseFloat formatFloat True True connectionExists replies w
      (mkRequest ''GET'' [(''Authorization'', ''token'')] [(''access_token'', ''secret'')])
     = (Panicked (SliceBoundsOutOfRange 6 5), w)"
proof -
  let ?req = "mkRequest ''GET'' [(''Authorization'', ''token'')] [(''access_token'', ''secret'')]"
  have r: "resolveAccessToken ?req = Inl (SliceBoundsOutOfRange 6 5)"
    by (simp add: resolveAccessToken_def slice_def)
  have m: "Method ?req = ''GET''"
    by (simp add: mkRequest_def)
  show ?thesis
    by (simp add: r m serveStream_def serveEventSource_def)
qed

section \<open>Claims on the request method\<close>

text \<open>
  C8. A request to either endpoint whose method is not \<^verbatim>\<open>GET\<close> is answered with status
  405, and the handler issues no call to the upstream, neither a sync nor a presence
  update.
\<close>

theorem non_GET_is_rejected:
  assumes "Method req \<noteq> ''GET''" and "\<not> wroteHeader w"
  shows "sentStatus (snd (serveStream flags upgradeOk replies w req)) = 405
    \<and> filter isUpstreamCall (eventsOf w (serveStream flags upgradeOk replies w req)) = []
    \<and> sentStatus (snd (serveEventSource flags parseFloat formatFloat isFlusher isCloseNotifier
          connectionExists replies w req)) = 405
    \<and> filter isUpstreamCall (eventsOf w (serveEventSource flags parseFloat formatFloat isFlusher
          isCloseNotifier connectionExists replies w req)) = []"
proof -
  have s: "serveStream flags upgradeOk replies w req = ended (httpError 405 w)"
    using assms(1) by (simp add: serveStream_def StatusMethodNotAllowed_def)
  have e: "serveEventSource flags parseFloat formatFloat isFlusher isCloseNotifier connectionExists
      replies w req = ended (httpError 405 w)"
    using assms(1) by (simp add: serveEventSource_def StatusMethodNotAllowed_def)
  have v: "(100::int) \<le> 405" "(405::int) \<le> 999"
    by simp_all
  have t: "eventsOf w (ended (httpError 405 w)) =
     [HeaderSet ''Content-Type'' ''text/plain; charset=utf-8'',
      HeaderSet ''X-Content-Type-Options'' ''nosniff'', WriteHeaderCall 405,
      WriteCall (StatusText 405 @ ''\<newline>'')]"
    by (rule eventsOf_append) (simp add: httpError_def fresh_http_Error(5) [OF assms(2) v])
  have u: "sentStatus (snd (httpError 405 w)) = 405"
    using fresh_http_Error(2) [OF assms(2) v, of "StatusText 405"]
    by (simp only: httpError_def)
  show ?thesis
    by (simp add: s e t u isUpstreamCall_def)
qed

theorem non_GET_is_rejected_witness:
  "sentStatus (snd (serveStream flags0 Upgraded [] world0 (mkRequest ''POST'' [] []))) = 405
    \<and> filter isUpstreamCall (eventsOf world0 (serveStream flags0 Upgraded [] world0 (mkRequest ''POST'' [] []))) = []
    \<and> sentStatus (snd (serveEventSource flags0 Some id True True (\<lambda>k. True) [] world0
          (mkRequest ''POST'' [] []))) = 405
    \<and> filter isUpstreamCall (eventsOf world0 (serveEventSource flags0 Some id True True (\<lambda>k. True) []
          world0 (mkRequest ''POST'' [] []))) = []"
proof -
  have m: "Method (mkRequest ''POST'' [] []) \<noteq> ''GET''"
    by (simp add: mkRequest_def)
  have f: "\<not> wroteHeader world0"
    by (simp add: world0_def)
  show ?thesis
    by (rule non_GET_is_rejected [OF m f])
qed

section \<open>Claims on the rewritten payload\<close>

text \<open>
  C1, as stated, fails: the data emitted on \<^verbatim>\<open>/events\<close> does not hold exactly the
  non-cursor top-level fields of the payload with their bytes. \<^verbatim>\<open>PopNextBatch\<close> decodes
  the payload into a struct of eight fields and prints the struct. On a payload with the
  cursor, the field \<^verbatim>\<open>rooms\<close> and one field the struct does not list, the unlisted field
  is gone, \<^verbatim>\<open>next_batch\<close> is still a member of the data, and the fields that the payload
  does not have are printed as \<^verbatim>\<open>null\<close> or \<^verbatim>\<open>0\<close>. On a payload whose
  \<^verbatim>\<open>device_one_time_keys_count\<close> is an object the decoding fails and there is no data at
  all. On a payload whose \<^verbatim>\<open>rooms\<close> holds a string with \<^verbatim>\<open><\<close> and an object with
  white space and unsorted keys, the value is printed with other bytes.
\<close>

theorem PopNextBatch_drops_and_reencodes:
  \<open>decode payload1 =
       Some (JObject [(''next_batch'', JString ''s72''), (''rooms'', JObject [(''join'', JObject [])]),
         (''org.example.custom'', JBool True)])
   \<and> PopNextBatch Some id payload1 =
     (''{"account_data":null,"to_device":null,"device_lists":null,"presence":null,"rooms":{"join":{}},"groups":null,"device_one_time_keys_count":0,"next_batch":""}'',
      None)
   \<and> decode payload2 =
       Some (JObject [(''next_batch'', JString ''s72''),
         (''device_one_time_keys_count'', JObject [(''signed_curve25519'', JNumber ''50'')])])
   \<and> PopNextBatch Some id payload2 = ([], Some UnmarshalTypeError)
   \<and> payload3 = ''{"rooms": {"b": [ ], "a": "<x>"}}''
   \<and> PopNextBatch Some id payload3 =
     (''{"account_data":null,"to_device":null,"device_lists":null,"presence":null,"rooms":{"a":"''
        @ [CHR 0x5C] @ ''u003cx'' @ [CHR 0x5C] @ ''u003e","b":[]},"groups":null,"device_one_time_keys_count":0,"next_batch":""}'',
      None)\<close>
  by code_simp

text \<open>
  C1, amended. When \<^verbatim>\<open>PopNextBatch\<close> decodes a payload that is a JSON object without
  error, the rewritten data contains every top-level field of the payload that the struct
  holds: for \<^verbatim>\<open>account_data\<close>, \<^verbatim>\<open>to_device\<close>, \<^verbatim>\<open>device_lists\<close>, \<^verbatim>\<open>presence\<close>,
  \<^verbatim>\<open>rooms\<close> and \<^verbatim>\<open>groups\<close> the text that \<^verbatim>\<open>json.Marshal\<close> prints for the Go value
  decoded from the last member of the payload with that name, and for
  \<^verbatim>\<open>device_one_time_keys_count\<close> the integer of the last such member, when that is a
  number. A member belongs to a field when \<^verbatim>\<open>encoding/json\<close> matches its name to the
  field, exactly or under case folding. Members of the payload that the struct does not
  list are not passed on: the result, data and error, is that of the payload without
  them.
\<close>

theorem PopNextBatch_prints_struct_fields:
  assumes "decode inp = Some (JObject ms)"
  shows "(snd (PopNextBatch parseFloat formatFloat inp) = None \<and> ms = ms1 @ (key, v) # ms2
            \<and> findField key = Some name \<and> name \<in> set valueFields
            \<and> (\<forall>kv\<in>set ms2. findField (fst kv) \<noteq> Some name)
          \<longrightarrow> (\<exists>g pre post. valueInterface parseFloat v = Some g
                \<and> fst (PopNextBatch parseFloat formatFloat inp) =
                    pre @ member name (encodeValue formatFloat g) @ post))
     \<and> (snd (PopNextBatch parseFloat formatFloat inp) = None \<and> ms = ms3 @ (key', JNumber lit) # ms4
            \<and> findField key' = Some ''device_one_time_keys_count''
            \<and> (\<forall>kv\<in>set ms4. findField (fst kv) \<noteq> Some ''device_one_time_keys_count'')
          \<longrightarrow> (\<exists>n pre post. parseInt lit = Some n
                \<and> fst (PopNextBatch parseFloat formatFloat inp) =
                    pre @ member ''device_one_time_keys_count'' (showInt n) @ post))
     \<and> (decode inp' = Some (JObject (filter known ms))
          \<longrightarrow> PopNextBatch parseFloat formatFloat inp' = PopNextBatch parseFloat formatFloat inp)"
proof (intro conjI impI)
  assume a: "snd (PopNextBatch parseFloat formatFloat inp) = None \<and> ms = ms1 @ (key, v) # ms2
            \<and> findField key = Some name \<and> name \<in> set valueFields
            \<and> (\<forall>kv\<in>set ms2. findField (fst kv) \<noteq> Some name)"
  let ?jsr = "fst (setMembers parseFloat ms zeroSyncResponse None)"
  note d = PopNextBatch_decoded [OF assms, of parseFloat formatFloat]
  have s: "snd (setMembers parseFloat (ms1 @ (key, v) # ms2) zeroSyncResponse None) = None"
    using a d(2) by simp
  obtain g where g: "valueInterface parseFloat v = Some g" "fieldOf name ?jsr = g"
    using a setMembers_last [of key name ms2 parseFloat ms1 v zeroSyncResponse None, OF _ _ _ s]
    by auto
  then have "fieldOf name (?jsr\<lparr>NextBatch := []\<rparr>) = g"
    by simp
  then have "\<exists>pre post. fst (PopNextBatch parseFloat formatFloat inp) =
                pre @ member name (encodeValue formatFloat g) @ post"
    using a d(1) Marshal_field [of name formatFloat "?jsr\<lparr>NextBatch := []\<rparr>"]
    by simp
  with g(1) show "\<exists>g pre post. valueInterface parseFloat v = Some g
                \<and> fst (PopNextBatch parseFloat formatFloat inp) =
                    pre @ member name (encodeValue formatFloat g) @ post"
    by blast
next
  assume a: "snd (PopNextBatch parseFloat formatFloat inp) = None \<and> ms = ms3 @ (key', JNumber lit) # ms4
            \<and> findField key' = Some ''device_one_time_keys_count''
            \<and> (\<forall>kv\<in>set ms4. findField (fst kv) \<noteq> Some ''device_one_time_keys_count'')"
  let ?jsr = "fst (setMembers parseFloat ms zeroSyncResponse None)"
  note d = PopNextBatch_decoded [OF assms, of parseFloat formatFloat]
  have s: "snd (setMembers parseFloat (ms3 @ (key', JNumber lit) # ms4) zeroSyncResponse None) = None"
    using a d(2) by simp
  obtain n where n: "parseInt lit = Some n" "DeviceOTKCount ?jsr = n"
    using a setMembers_last_count [of key' ms4 parseFloat ms3 lit zeroSyncResponse None, OF _ _ s]
    by auto
  then have "DeviceOTKCount (?jsr\<lparr>NextBatch := []\<rparr>) = n"
    by simp
  then have "\<exists>pre post. fst (PopNextBatch parseFloat formatFloat inp) =
                pre @ member ''device_one_time_keys_count'' (showInt n) @ post"
    using a d(1) Marshal_count [of formatFloat "?jsr\<lparr>NextBatch := []\<rparr>"]
    by simp
  with n(1) show "\<exists>n pre post. parseInt lit = Some n
                \<and> fst (PopNextBatch parseFloat formatFloat inp) =
                    pre @ member ''device_one_time_keys_count'' (showInt n) @ post"
    by blast
next
  assume "decode inp' = Some (JObject (filter known ms))"
  then show "PopNextBatch parseFloat formatFloat inp' = PopNextBatch parseFloat formatFloat inp"
    using assms by (simp add: PopNextBatch_def Unmarshal_def setMembers_known)
qed

theorem PopNextBatch_prints_struct_fields_witness:
  \<open>(\<exists>pre post. fst (PopNextBatch Some id payload4) = pre @ ''"rooms":{"join":{}}'' @ post)
     \<and> (\<exists>pre post. fst (PopNextBatch Some id payload4) = pre @ ''"device_one_time_keys_count":7'' @ post)
     \<and> PopNextBatch Some id payload5 = PopNextBatch Some id payload4\<close>
proof -
  have 1: "snd (PopNextBatch Some id payload4) = None"
    by (simp add: PopNextBatch_payload4)
  have 2: "findField ''Rooms'' = Some ''rooms''" "''rooms'' \<in> set valueFields"
    "\<forall>kv\<in>set [(''device_one_time_keys_count'', JNumber ''7''), (''org.example.custom'', JBool True)].
       findField (fst kv) \<noteq> Some ''rooms''"
    by code_simp+
  have 3: "findField ''device_one_time_keys_count'' = Some ''device_one_time_keys_count''"
    "\<forall>kv\<in>set [(''org.example.custom'', JBool True)].
       findField (fst kv) \<noteq> Some ''device_one_time_keys_count''"
    by code_simp+
  have 4: "valueInterface Some (JObject [(''join'', JObject [])]) = Some (GMap [(''join'', GMap [])])"
    by code_simp
  have 5: \<open>member ''rooms'' (encodeValue id (GMap [(''join'', GMap [])])) = ''"rooms":{"join":{}}''\<close>
    by code_simp
  have 6: "parseInt ''7'' = Some 7"
    by code_simp
  have 7: \<open>member ''device_one_time_keys_count'' (showInt 7) = ''"device_one_time_keys_count":7''\<close>
    by code_simp
  note t = PopNextBatch_prints_struct_fields [OF decode_payload4, of Some id
      "[(''next_batch'', JString ''s72'')]" "''Rooms''" "JObject [(''join'', JObject [])]"
      "[(''device_one_time_keys_count'', JNumber ''7''), (''org.example.custom'', JBool True)]"
      "''rooms''"
      "[(''next_batch'', JString ''s72''), (''Rooms'', JObject [(''join'', JObject [])])]"
      "''device_one_time_keys_count''" "''7''" "[(''org.example.custom'', JBool True)]" payload5]
  have a: "\<exists>g pre post. valueInterface Some (JObject [(''join'', JObject [])]) = Some g
      \<and> fst (PopNextBatch Some id payload4) = pre @ member ''rooms'' (encodeValue id g) @ post"
    using t [THEN conjunct1] 1 2 by simp
  have b: "\<exists>n pre post. parseInt ''7'' = Some n
      \<and> fst (PopNextBatch Some id payload4) = pre @ member ''device_one_time_keys_count'' (showInt n) @ post"
    using t [THEN conjunct2, THEN conjunct1] 1 3 by simp
  have c: "PopNextBatch Some id payload5 = PopNextBatch Some id payload4"
    using t [THEN conjunct2, THEN conjunct2] decode_payload5 by simp
  from a have a': "\<exists>pre post. fst (PopNextBatch Some id payload4) = pre @ ''\"rooms\":{\"join\":{}}'' @ post"
    unfolding 4 5 [symmetric] by auto
  from b have b': "\<exists>pre post. fst (PopNextBatch Some id payload4) = pre @ ''\"device_one_time_keys_count\":7'' @ post"
    unfolding 6 7 [symmetric] by auto
  from a' b' c show ?thesis
    by (intro conjI)
qed

section \<open>Claims on the handler of \<^verbatim>\<open>/stream\<close>\<close>

text \<open>
  C2. The claim is that on \<^verbatim>\<open>/stream\<close> a failed initial sync is always answered with the
  classified error as a plain HTTP response. The order that the claim gives holds
  (\<open>serveStream_log\<close>), and the error is relayed when its status is one that \<^verbatim>\<open>net/http\<close>
  accepts (\<open>serveStream_failure_is_relayed\<close>). \<^verbatim>\<open>handleHttpError\<close> passes the status of
  the error to \<^verbatim>\<open>WriteHeader\<close> as it is. For a transport error that carries no status
  the call is \<^verbatim>\<open>WriteHeader(0)\<close>, which panics: the handler ends there, and neither a
  status nor a body is written.
\<close>

theorem error_without_status_is_not_relayed:
  "classify noResponse = (0, Some [], [])
   \<and> fst (serveStream flags0 Upgraded [SyncFailed noResponse] world0
        (mkRequest ''GET'' [] [(''access_token'', ''secret'')]))
     = Panicked (InvalidWriteHeaderCode 0)
   \<and> eventsOf world0 (serveStream flags0 Upgraded [SyncFailed noResponse] world0
        (mkRequest ''GET'' [] [(''access_token'', ''secret'')]))
     = [UpdatePresenceCall
          \<lparr>Url = ''http://localhost:8008/'', AccessToken = ''secret'', NextSyncBatch = [],
           Filter = [], Presence = []\<rparr> [],
        SyncCall
          \<lparr>Url = ''http://localhost:8008/'', AccessToken = ''secret'', NextSyncBatch = [],
           Filter = [], Presence = []\<rparr> False,
        HeaderSet ''Content-Type'' [], WriteHeaderCall 0]
   \<and> wroteHeader (snd (serveStream flags0 Upgraded [SyncFailed noResponse] world0
        (mkRequest ''GET'' [] [(''access_token'', ''secret'')]))) = False
   \<and> sentBody (snd (serveStream flags0 Upgraded [SyncFailed noResponse] world0
        (mkRequest ''GET'' [] [(''access_token'', ''secret'')]))) = []"
  by code_simp

section \<open>Claims on the handler of \<^verbatim>\<open>/events\<close>\<close>

text \<open>
  C3. On \<^verbatim>\<open>/events\<close> the cursor of the first sync request is the value of the
  \<^verbatim>\<open>last-event-id\<close> header when that header is present and not empty, also when a
  \<^verbatim>\<open>since\<close> parameter is supplied; the parameter is used only when the header is absent
  or empty. The first call to the upstream is that sync, after the four streaming headers
  are set.
\<close>

theorem last_event_id_takes_precedence:
  assumes "Method req = ''GET''" and "resolveAccessToken req = Inr accessToken"
  shows "\<exists>client es.
     eventsOf rw (serveEventSource flags parseFloat formatFloat True True connectionExists replies rw req) =
       [HeaderSet ''Content-Type'' ''text/event-stream'', HeaderSet ''Cache-Control'' ''no-cache'',
        HeaderSet ''Connection'' ''keep-alive'', HeaderSet ''Access-Control-Allow-Origin'' ''*'',
        SyncCall client False] @ es
     \<and> NextSyncBatch client =
         (if Get (Header req) ''last-event-id'' \<noteq> [] then Get (Header req) ''last-event-id''
          else Get (Query req) ''since'')"
  using serveEventSource_events [OF assms refl, where flags = flags and rw = rw
      and parseFloat = parseFloat and formatFloat = formatFloat
      and connectionExists = connectionExists and replies = replies]
  by auto

theorem last_event_id_takes_precedence_witness:
  "\<exists>client es.
     eventsOf world0 (serveEventSource flags0 Some id True True (\<lambda>k. True) [] world0 request0) =
       [HeaderSet ''Content-Type'' ''text/event-stream'', HeaderSet ''Cache-Control'' ''no-cache'',
        HeaderSet ''Connection'' ''keep-alive'', HeaderSet ''Access-Control-Allow-Origin'' ''*'',
        SyncCall client False] @ es
     \<and> NextSyncBatch client = ''s5''"
proof -
  have m: "Method request0 = ''GET''"
    by (simp add: request0_def mkRequest_def)
  have a: "resolveAccessToken request0 = Inr ''secret''"
    by (simp add: resolveAccessToken_def request0_def mkRequest_def Get_def)
  have h: "Get (Header request0) ''last-event-id'' = ''s5''"
    by (simp add: request0_def mkRequest_def Get_def)
  show ?thesis
    using last_event_id_takes_precedence [OF m a, of world0 flags0 Some id "\<lambda>k. True" "[]"]
    by (simp add: h)
qed

text \<open>
  C7. The claim is that every successful sync on \<^verbatim>\<open>/events\<close> is followed by three lines,
  the last of them a data line that carries the rewritten JSON payload. The loop does
  write three times and then flush (\<open>eventLoop_round\<close>), but what it writes after
  \<^verbatim>\<open>data:\<close> is the first result of \<^verbatim>\<open>PopNextBatch\<close>, whose error it never looks at. A sync
  response in which \<^verbatim>\<open>device_one_time_keys_count\<close> is an object, as homeservers send it,
  is valid JSON that does not fit the struct of \<^verbatim>\<open>PopNextBatch\<close>, where the field is
  an \<^verbatim>\<open>int\<close>: \<^verbatim>\<open>json.Unmarshal\<close> fails, \<^verbatim>\<open>PopNextBatch\<close> returns no bytes, and the event sent
  to the client has an empty data line.
\<close>

theorem failed_rewrite_emits_empty_data:
  \<open>decode syncResponse0 =
     Some (JObject [(''next_batch'', JString ''s9''), (''rooms'', JObject []),
       (''device_one_time_keys_count'', JObject [(''signed_curve25519'', JNumber ''50'')])])
   \<and> PopNextBatch Some id syncResponse0 = ([], Some UnmarshalTypeError)
   \<and> eventsOf world0 (serveEventSource flags0 Some id True True (\<lambda>k. False)
        [SyncOk syncResponse0 ''s9''] world0 (mkRequest ''GET'' [] [])) =
       [HeaderSet ''Content-Type'' ''text/event-stream'', HeaderSet ''Cache-Control'' ''no-cache'',
        HeaderSet ''Connection'' ''keep-alive'', HeaderSet ''Access-Control-Allow-Origin'' ''*'',
        SyncCall \<lparr>Url = ''http://localhost:8008/'', AccessToken = [], NextSyncBatch = [],
          Filter = [], Presence = []\<rparr> False,
        WriteCall ''id: s9\<newline>'', WriteCall ''event: sync\<newline>'', WriteCall ''data: \<newline>\<newline>'',
        FlushCall, ReadConnectionExists False]
   \<and> response (snd (serveEventSource flags0 Some id True True (\<lambda>k. False)
        [SyncOk syncResponse0 ''s9''] world0 (mkRequest ''GET'' [] []))) =
       (200, Some ''text/event-stream'', ''id: s9\<newline>event: sync\<newline>data: \<newline>\<newline>'')\<close>
  by code_simp

text \<open>
  C6. Once a read of \<^verbatim>\<open>connectionExists\<close> has found the connection closed, the handler
  of \<^verbatim>\<open>/events\<close> does nothing more: nothing is logged after that read, in particular no
  sync call. The flag is read only directly after a flush, that is between two cycles and
  never between a sync call and the event written for it.
\<close>

theorem no_sync_after_closure_detected:
  "afterClosure (eventsOf rw (serveEventSource flags parseFloat formatFloat isFlusher isCloseNotifier
        connectionExists replies rw req)) = []
   \<and> readsFollowFlush (eventsOf rw (serveEventSource flags parseFloat formatFloat isFlusher isCloseNotifier
        connectionExists replies rw req))"
proof (cases "Method req = ''GET'' \<and> isFlusher \<and> isCloseNotifier \<and> (\<exists>t. resolveAccessToken req = Inr t)")
  case True
  then obtain t where t: "resolveAccessToken req = Inr t" and m: "Method req = ''GET''"
    and f: "isFlusher = True" "isCloseNotifier = True"
    by auto
  obtain es where "eventsOf rw (serveEventSource flags parseFloat formatFloat True True connectionExists replies rw req) =
     [HeaderSet ''Content-Type'' ''text/event-stream'', HeaderSet ''Cache-Control'' ''no-cache'',
      HeaderSet ''Connection'' ''keep-alive'', HeaderSet ''Access-Control-Allow-Origin'' ''*'',
      SyncCall \<lparr>Url = upstreamURL flags, AccessToken = t,
           NextSyncBatch = (if Get (Header req) ''last-event-id'' \<noteq> []
             then Get (Header req) ''last-event-id'' else Get (Query req) ''since''),
           Filter = Get (Query req) ''filter'', Presence = Get (Query req) ''presence''\<rparr> False] @ es"
     "afterClosure es = []" "readsFollowFlush es"
    using serveEventSource_events [OF m t refl] by blast
  then show ?thesis
    unfolding f by (simp add: afterClosure_def readsFollowFlush_Cons isRead_def)
next
  case False
  then obtain p where "Method req \<noteq> ''GET'' \<or> \<not> isFlusher \<or> \<not> isCloseNotifier \<or> resolveAccessToken req = Inl p"
    by (cases "resolveAccessToken req") auto
  then show ?thesis
    by (rule serveEventSource_other)
qed

theorem no_sync_after_closure_detected_witness:
  "length closedRun = 16 \<and> closedRun ! 15 = ReadConnectionExists False
    \<and> closedRun ! 14 = FlushCall \<and> afterClosure closedRun = []"
proof -
  have c: "afterClosure closedRun = [] \<and> readsFollowFlush closedRun"
    unfolding closedRun_def by (rule no_sync_after_closure_detected)
  have "isRead (closedRun ! 15)" and "(15::nat) < length closedRun"
    using closedRun_read by (simp_all add: isRead_def)
  with c have "closedRun ! (15 - 1) = FlushCall"
    unfolding readsFollowFlush_def by blast
  then show ?thesis
    using c closedRun_read by simp
qed

section \<open>Claims on error responses\<close>

text \<open>
  C5. The claim is that every failed sync is answered with the status, content type and
  body of the upstream (or the fixed status 500). That holds for the initial sync when the
  status is one that \<^verbatim>\<open>net/http\<close> accepts (\<open>initial_failure_is_relayed\<close>). When a later
  sync fails on \<^verbatim>\<open>/events\<close>, the status 200 and the content type
  \<^verbatim>\<open>text/event-stream\<close> have been sent with the first event: the call of
  \<^verbatim>\<open>WriteHeader\<close> with the status of the upstream has no effect, and the body of the
  error is appended to the event stream.
\<close>

theorem late_failure_keeps_status_200:
  \<open>response (snd (serveEventSource flags0 Some id True True (\<lambda>k. True)
       [SyncOk payload0 ''s9'', SyncFailed badGateway] world0 (mkRequest ''GET'' [] [])))
     = (200, Some ''text/event-stream'',
        ''id: s9\<newline>event: sync\<newline>data: {"account_data":null,"to_device":null,"device_lists":null,"presence":null,"rooms":{},"groups":null,"device_one_time_keys_count":0,"next_batch":""}\<newline>\<newline>Bad Gateway'')\<close>
  by code_simp

end
